theory Spec2Isabelle
  imports
    Main
    "HOL-Library.AList"
    "HOL-Library.Char_ord"
    "HOL-Library.List_Lexorder"
begin

section \<open>Data model\<close>

text \<open>
  The pipeline of \<^verbatim>\<open>filter_junction.py\<close> moves tables between files and stages.
  A cell is a string or null (\<open>None\<close>): the columns the pipeline consumes
  (\<^verbatim>\<open>junction_coords\<close>, \<^verbatim>\<open>sample_name\<close>, \<^verbatim>\<open>junc_cat\<close>, \<^verbatim>\<open>genotype\<close>,
  \<^verbatim>\<open>TDP43_kd\<close>, \<^verbatim>\<open>rescueExpression\<close>) are compared with string literals only, and
  the columns of a measurement shard are string columns. A row lists its cells by
  column name, in column order; a table (a \<^verbatim>\<open>pyarrow.Table\<close>) is its column names and
  its rows.
\<close>

type_synonym cell = "string option"

type_synonym row = "(string \<times> cell) list"

record table =
  columns :: "string list"
  rows :: "row list"

text \<open>The value of column \<open>c\<close> in a row; a cell the row does not carry reads as null.\<close>

definition cell_at :: "row \<Rightarrow> string \<Rightarrow> cell" where
  "cell_at r c = (case map_of r c of None \<Rightarrow> None | Some v \<Rightarrow> v)"

text \<open>
  A \<^verbatim>\<open>pandas.DataFrame\<close> is a table with an index. \<^verbatim>\<open>pd.read_csv\<close> gives the frame
  the default \<^verbatim>\<open>RangeIndex\<close>, the positions of the rows; selecting rows by a boolean
  mask leaves the labels of the rows that stay, an explicit integer index.
\<close>

datatype pd_index = RangeIndex | Int64Index "nat list"

record dataframe = table +
  frame_index :: pd_index

definition data_frame :: "table \<Rightarrow> dataframe" where
  "data_frame t = \<lparr>columns = columns t, rows = rows t, frame_index = RangeIndex\<rparr>"

definition index_labels :: "dataframe \<Rightarrow> nat list" where
  "index_labels df =
     (case frame_index df of
        RangeIndex \<Rightarrow> [0..<length (rows df)]
      | Int64Index labels \<Rightarrow> labels)"

text \<open>The decimal text of an index label, as a cell of a table shows it.\<close>

fun decimal :: "nat \<Rightarrow> string" where
  "decimal n =
     (if n < 10 then [''0123456789'' ! n]
      else decimal (n div 10) @ [''0123456789'' ! (n mod 10)])"

text \<open>
  The frame returned by \<^verbatim>\<open>groupby('genotype').agg(...)\<close> in \<^verbatim>\<open>count_joined\<close>:
  its index is the genotype, its three columns are counts.
\<close>

record summary_row =
  genotype :: string
  cryptic_count :: nat
  TDP34_kd_associated :: nat
  rescueInduced :: nat

subsection \<open>Paths, files and the file system\<close>

text \<open>
  A path is the list of its components, relative to the current directory, which is the
  empty path and always exists. A file holds data in one of the formats the pipeline
  reads or writes; a ZIP archive holds its file members, each under its own relative path.
  The file system is an association list from paths to nodes, the first binding of a path
  being the node there.
\<close>

type_synonym path = "string list"

datatype data =
    Parquet table
  | Csv table
  | SummaryCsv "summary_row list"
  | Other string

datatype node =
    Dir
  | File data
  | ZipFile "(path \<times> data) list"

type_synonym fs = "(path \<times> node) list"

text \<open>Every \<^verbatim>\<open>raise\<close> of the script and of the library calls it makes.\<close>

datatype error =
    FileNotFoundError path
  | FileExistsError path
  | NotADirectoryError path
  | IsADirectoryError path
  | DirectoryNotEmpty path
  | InvalidArgument path
  | BadZipFile path
  | NoParquetFiles path
  | UnboundLocalError string
  | ParseError path
  | KeyError string
  | ArrowInvalid string
  | RuntimeError

definition lookup :: "fs \<Rightarrow> path \<Rightarrow> node option" where
  "lookup fs p = (if p = [] then Some Dir else map_of fs p)"

definition os_path_exists :: "fs \<Rightarrow> path \<Rightarrow> bool" where
  "os_path_exists fs p \<longleftrightarrow> lookup fs p \<noteq> None"

definition os_path_join :: "path \<Rightarrow> string \<Rightarrow> path" where
  "os_path_join d f = d @ [f]"

text \<open>
  The names of the entries directly inside directory \<open>d\<close>. \<^verbatim>\<open>os.listdir\<close> gives them
  in an order of the file system's choosing; here it is the order in which the paths
  were first bound, and what is stated below of a listing is stated of its set of names.
\<close>

definition entries :: "fs \<Rightarrow> path \<Rightarrow> string list" where
  "entries fs d = map last (filter (\<lambda>p. p \<noteq> [] \<and> butlast p = d) (remdups (map fst fs)))"

definition os_listdir :: "fs \<Rightarrow> path \<Rightarrow> error + string list" where
  "os_listdir fs d =
     (case lookup fs d of
        None \<Rightarrow> Inl (FileNotFoundError d)
      | Some Dir \<Rightarrow> Inr (entries fs d)
      | Some (File x) \<Rightarrow> Inl (NotADirectoryError d)
      | Some (ZipFile ms) \<Rightarrow> Inl (NotADirectoryError d))"

text \<open>
  Creates each directory of the list that is missing, in order; a file in the way is an
  error. A failure leaves the directories made so far.
\<close>

fun ensure_dirs :: "path list \<Rightarrow> fs \<Rightarrow> (error + unit) \<times> fs" where
  "ensure_dirs [] fs = (Inr (), fs)"
| "ensure_dirs (d # ds) fs =
     (case lookup fs d of
        None \<Rightarrow> ensure_dirs ds (AList.update d Dir fs)
      | Some Dir \<Rightarrow> ensure_dirs ds fs
      | Some (File x) \<Rightarrow> (Inl (NotADirectoryError d), fs)
      | Some (ZipFile ms) \<Rightarrow> (Inl (NotADirectoryError d), fs))"

text \<open>\<^verbatim>\<open>os.makedirs(p)\<close>: the directory and its missing ancestors; \<open>p\<close> must not exist.\<close>

definition os_makedirs :: "path \<Rightarrow> fs \<Rightarrow> (error + unit) \<times> fs" where
  "os_makedirs p fs =
     (if os_path_exists fs p then (Inl (FileExistsError p), fs)
      else ensure_dirs (map (\<lambda>k. take k p) [1..<Suc (length p)]) fs)"

text \<open>
  Opening a path for writing and storing a node there: the parent must be a directory
  and the target must not be one. An existing file is overwritten.
\<close>

definition write_file :: "path \<Rightarrow> node \<Rightarrow> fs \<Rightarrow> (error + unit) \<times> fs" where
  "write_file p n fs =
     (if lookup fs p = Some Dir then (Inl (IsADirectoryError p), fs)
      else if lookup fs (butlast p) \<noteq> Some Dir then (Inl (FileNotFoundError p), fs)
      else (Inr (), AList.update p n fs))"

text \<open>\<^verbatim>\<open>os.remove\<close> deletes a file, never a directory.\<close>

definition os_remove :: "path \<Rightarrow> fs \<Rightarrow> (error + unit) \<times> fs" where
  "os_remove p fs =
     (case lookup fs p of
        None \<Rightarrow> (Inl (FileNotFoundError p), fs)
      | Some Dir \<Rightarrow> (Inl (IsADirectoryError p), fs)
      | Some (File x) \<Rightarrow> (Inr (), AList.delete p fs)
      | Some (ZipFile ms) \<Rightarrow> (Inr (), AList.delete p fs))"

text \<open>\<^verbatim>\<open>os.rmdir\<close> deletes an empty directory; the current directory cannot be removed.\<close>

definition os_rmdir :: "path \<Rightarrow> fs \<Rightarrow> (error + unit) \<times> fs" where
  "os_rmdir p fs =
     (case lookup fs p of
        None \<Rightarrow> (Inl (FileNotFoundError p), fs)
      | Some Dir \<Rightarrow>
          (if p = [] then (Inl (InvalidArgument p), fs)
           else if entries fs p \<noteq> [] then (Inl (DirectoryNotEmpty p), fs)
           else (Inr (), AList.delete p fs))
      | Some (File x) \<Rightarrow> (Inl (NotADirectoryError p), fs)
      | Some (ZipFile ms) \<Rightarrow> (Inl (NotADirectoryError p), fs))"

text \<open>\<^verbatim>\<open>zipfile.ZipFile(zip_path, 'r')\<close>: the members of the archive at the path.\<close>

definition open_zip :: "fs \<Rightarrow> path \<Rightarrow> error + (path \<times> data) list" where
  "open_zip fs p =
     (case lookup fs p of
        None \<Rightarrow> Inl (FileNotFoundError p)
      | Some Dir \<Rightarrow> Inl (IsADirectoryError p)
      | Some (File x) \<Rightarrow> Inl (BadZipFile p)
      | Some (ZipFile ms) \<Rightarrow> Inr ms)"

text \<open>
  \<^verbatim>\<open>ZipFile.extract\<close> of one member into \<open>dir\<close>: the directories above the target are
  made when missing, then the member is written, over any file already there.
\<close>

definition extract_member :: "path \<Rightarrow> path \<times> data \<Rightarrow> fs \<Rightarrow> (error + unit) \<times> fs" where
  "extract_member dir m fs =
     (case ensure_dirs (map (\<lambda>k. dir @ take k (fst m)) [0..<length (fst m)]) fs of
        (Inl e, fs') \<Rightarrow> (Inl e, fs')
      | (Inr u, fs') \<Rightarrow> write_file (dir @ fst m) (File (snd m)) fs')"

fun extractall :: "path \<Rightarrow> (path \<times> data) list \<Rightarrow> fs \<Rightarrow> (error + unit) \<times> fs" where
  "extractall dir [] fs = (Inr (), fs)"
| "extractall dir (m # ms) fs =
     (case extract_member dir m fs of
        (Inl e, fs') \<Rightarrow> (Inl e, fs')
      | (Inr u, fs') \<Rightarrow> extractall dir ms fs')"

text \<open>\<^verbatim>\<open>str.endswith\<close>.\<close>

definition endswith :: "string \<Rightarrow> string \<Rightarrow> bool" where
  "endswith s suf \<longleftrightarrow> length suf \<le> length s \<and> drop (length s - length suf) s = suf"

section \<open>ArchiveExtractor: \<^verbatim>\<open>extract_all_parquet_from_zip\<close>\<close>

text \<open>
  Both \<^verbatim>\<open>except\<close> clauses print and re-raise, so every failure of the body is the
  failure of the call. The file system is returned as the failure left it.
\<close>

definition extract_all_parquet_from_zip :: "path \<Rightarrow> path \<Rightarrow> fs \<Rightarrow> (error + path list) \<times> fs" where
  "extract_all_parquet_from_zip zip_path extract_dir fs =
     (case (if \<not> os_path_exists fs extract_dir then os_makedirs extract_dir fs
            else (Inr (), fs)) of
        (Inl e, fs1) \<Rightarrow> (Inl e, fs1)
      | (Inr u, fs1) \<Rightarrow>
          (case open_zip fs1 zip_path of
             Inl e \<Rightarrow> (Inl e, fs1)
           | Inr z \<Rightarrow>
               (case extractall extract_dir z fs1 of
                  (Inl e, fs2) \<Rightarrow> (Inl e, fs2)
                | (Inr u', fs2) \<Rightarrow>
                    (case os_listdir fs2 extract_dir of
                       Inl e \<Rightarrow> (Inl e, fs2)
                     | Inr names \<Rightarrow>
                         (let parquet_files =
                                map (os_path_join extract_dir)
                                  (filter (\<lambda>f. endswith f ''.parquet'') names)
                          in if length parquet_files = 0
                             then (Inl (NoParquetFiles extract_dir), fs2)
                             else (Inr parquet_files, fs2))))))"

section \<open>ColumnarLoader: \<^verbatim>\<open>load_parquet_files\<close>\<close>

text \<open>\<^verbatim>\<open>pq.ParquetFile(path, ...).read()\<close>: the table stored in a Parquet file.\<close>

definition read_parquet :: "fs \<Rightarrow> path \<Rightarrow> error + table" where
  "read_parquet fs p =
     (case lookup fs p of
        None \<Rightarrow> Inl (FileNotFoundError p)
      | Some Dir \<Rightarrow> Inl (IsADirectoryError p)
      | Some (File (Parquet t)) \<Rightarrow> Inr t
      | Some (File (Csv t)) \<Rightarrow> Inl (ParseError p)
      | Some (File (SummaryCsv s)) \<Rightarrow> Inl (ParseError p)
      | Some (File (Other s)) \<Rightarrow> Inl (ParseError p)
      | Some (ZipFile ms) \<Rightarrow> Inl (ParseError p))"

text \<open>
  The loop assigns \<^verbatim>\<open>parquet_dataset\<close> anew for every shard; the variable is unbound
  (\<open>None\<close>) until the first shard is read.
\<close>

fun load_loop :: "fs \<Rightarrow> path list \<Rightarrow> table option \<Rightarrow> error + table option" where
  "load_loop fs [] parquet_dataset = Inr parquet_dataset"
| "load_loop fs (parquet_file # rest) parquet_dataset =
     (case read_parquet fs parquet_file of
        Inl e \<Rightarrow> Inl e
      | Inr t \<Rightarrow> load_loop fs rest (Some t))"

definition load_parquet_files :: "fs \<Rightarrow> path list \<Rightarrow> error + table" where
  "load_parquet_files fs parquet_files =
     (case load_loop fs parquet_files None of
        Inl e \<Rightarrow> Inl e
      | Inr None \<Rightarrow> Inl (UnboundLocalError ''parquet_dataset'')
      | Inr (Some parquet_dataset) \<Rightarrow> Inr parquet_dataset)"

section \<open>Table operations of pandas and pyarrow\<close>

text \<open>
  \<^verbatim>\<open>pd.read_csv\<close> and \<^verbatim>\<open>pyarrow.csv.read_csv\<close>: the table a delimited text file parses
  to. A file that is missing or does not parse raises.
\<close>

definition read_csv :: "fs \<Rightarrow> path \<Rightarrow> error + table" where
  "read_csv fs p =
     (case lookup fs p of
        None \<Rightarrow> Inl (FileNotFoundError p)
      | Some Dir \<Rightarrow> Inl (IsADirectoryError p)
      | Some (File (Parquet t)) \<Rightarrow> Inl (ParseError p)
      | Some (File (Csv t)) \<Rightarrow> Inr t
      | Some (File (SummaryCsv s)) \<Rightarrow> Inl (ParseError p)
      | Some (File (Other s)) \<Rightarrow> Inl (ParseError p)
      | Some (ZipFile ms) \<Rightarrow> Inl (ParseError p))"

definition pd_read_csv :: "fs \<Rightarrow> path \<Rightarrow> error + dataframe" where
  "pd_read_csv fs p =
     (case read_csv fs p of
        Inl e \<Rightarrow> Inl e
      | Inr t \<Rightarrow> Inr (data_frame t))"

definition pv_read_csv :: "fs \<Rightarrow> path \<Rightarrow> error + table" where
  "pv_read_csv = read_csv"

text \<open>\<^verbatim>\<open>pyarrow.csv.write_csv(table, path)\<close> and \<^verbatim>\<open>DataFrame.to_csv(path)\<close>.\<close>

definition pv_write_csv :: "table \<Rightarrow> path \<Rightarrow> fs \<Rightarrow> (error + unit) \<times> fs" where
  "pv_write_csv t p fs = write_file p (File (Csv t)) fs"


text \<open>
  \<^verbatim>\<open>pa.Table.from_pandas(df)\<close> keeps columns and rows. A default index is not stored
  as a column; any other index becomes the last column, named
  \<^verbatim>\<open>__index_level_0__\<close>, of the labels of the rows. \<^verbatim>\<open>Table.to_pandas()\<close> gives a frame
  with the default index.
\<close>

definition from_pandas :: "dataframe \<Rightarrow> table" where
  "from_pandas df =
     (case frame_index df of
        RangeIndex \<Rightarrow> \<lparr>columns = columns df, rows = rows df\<rparr>
      | Int64Index labels \<Rightarrow>
          \<lparr>columns = columns df @ [''__index_level_0__''],
           rows = map (\<lambda>(r, l). r @ [(''__index_level_0__'', Some (decimal l))])
                    (zip (rows df) labels)\<rparr>)"

definition to_pandas :: "table \<Rightarrow> dataframe" where
  "to_pandas t = data_frame t"

text \<open>\<^verbatim>\<open>t[name]\<close>: the cells of a column, top to bottom; a missing column raises.\<close>

definition column :: "'a table_scheme \<Rightarrow> string \<Rightarrow> error + cell list" where
  "column t name =
     (if name \<in> set (columns t) then Inr (map (\<lambda>r. cell_at r name) (rows t))
      else Inl (KeyError name))"

text \<open>\<^verbatim>\<open>Series.isin(values)\<close>: a null cell is in no list of strings.\<close>

definition isin :: "cell list \<Rightarrow> string list \<Rightarrow> bool list" where
  "isin xs values = map (\<lambda>x. case x of None \<Rightarrow> False | Some v \<Rightarrow> v \<in> set values) xs"

text \<open>
  \<^verbatim>\<open>df.loc[mask]\<close>: the rows at which the boolean mask is true, in order, under the
  labels they had.
\<close>

definition loc :: "dataframe \<Rightarrow> bool list \<Rightarrow> dataframe" where
  "loc df msk =
     df\<lparr>rows := map fst (filter snd (zip (rows df) msk)),
        frame_index := Int64Index (map fst (filter snd (zip (index_labels df) msk)))\<rparr>"

text \<open>
  \<^verbatim>\<open>pc.equal(column, s)\<close>: element-wise equality with a scalar; the result is null at a
  null cell. \<^verbatim>\<open>Table.filter(mask)\<close> keeps the rows at which the mask is true and drops
  those at which it is false or null.
\<close>

definition pc_equal :: "cell list \<Rightarrow> string \<Rightarrow> bool option list" where
  "pc_equal xs s = map (map_option (\<lambda>v. v = s)) xs"

definition table_filter :: "table \<Rightarrow> bool option list \<Rightarrow> table" where
  "table_filter t msk =
     t\<lparr>rows := map fst (filter (\<lambda>rm. snd rm = Some True) (zip (rows t) msk))\<rparr>"

text \<open>
  \<^verbatim>\<open>Table.join(right, keys=key, join_type=...)\<close>. Two rows match when their key cells
  are equal and not null. An inner join emits one row for every matching pair; a left
  outer join emits, besides, every left row without a match, its right-hand columns
  null. The key column of the right table is not repeated. When \<^verbatim>\<open>join_type\<close> is not
  passed, pyarrow joins \<^verbatim>\<open>"left outer"\<close>.

  The join raises when a side lacks the key column, when the key columns differ in type,
  and when another column name is on both sides. The left table of either join of
  \<^verbatim>\<open>join_datasets\<close> has its key column from a measurement shard, a string column. The
  right table comes from \<^verbatim>\<open>from_pandas\<close> or \<^verbatim>\<open>read_csv\<close>, which infer the type of a
  column from its values, and a column without any value (no row, or null cells only) is
  not inferred to be a string column.

  The order in which a join emits its rows is the engine's and is not specified; the
  rows are listed here by left row and, under it, by right row, and no statement below
  depends on their order.
\<close>

datatype join_type = Inner | LeftOuter

definition default_join_type :: join_type where
  "default_join_type = LeftOuter"

definition key_match :: "cell \<Rightarrow> cell \<Rightarrow> bool" where
  "key_match a b \<longleftrightarrow> a \<noteq> None \<and> a = b"

definition join_row :: "table \<Rightarrow> string \<Rightarrow> join_type \<Rightarrow> row \<Rightarrow> row list" where
  "join_row right key jt l =
     (let ms = filter (\<lambda>r. key_match (cell_at l key) (cell_at r key)) (rows right)
      in if ms = [] then
           (case jt of
              Inner \<Rightarrow> []
            | LeftOuter \<Rightarrow> [l @ map (\<lambda>c. (c, None)) (filter (\<lambda>c. c \<noteq> key) (columns right))])
         else map (\<lambda>r. l @ filter (\<lambda>cv. fst cv \<noteq> key) r) ms)"

definition inferred_string :: "table \<Rightarrow> string \<Rightarrow> bool" where
  "inferred_string t c \<longleftrightarrow> (\<exists>r\<in>set (rows t). cell_at r c \<noteq> None)"

definition table_join :: "table \<Rightarrow> table \<Rightarrow> string \<Rightarrow> join_type \<Rightarrow> error + table" where
  "table_join left right key jt =
     (if key \<notin> set (columns left) \<or> key \<notin> set (columns right) then Inl (KeyError key)
      else if \<not> inferred_string right key
        then Inl (ArrowInvalid ''incompatible key types'')
      else if \<exists>c\<in>set (columns right). c \<noteq> key \<and> c \<in> set (columns left)
        then Inl (ArrowInvalid ''column name on both sides'')
      else Inr \<lparr>columns = columns left @ filter (\<lambda>c. c \<noteq> key) (columns right),
                rows = concat (map (join_row right key jt) (rows left))\<rparr>)"

text \<open>
  \<^verbatim>\<open>DataFrame.groupby(by)\<close>: every row whose \<open>by\<close> cell is not null joins the group of
  that value (null keys are dropped); the groups come out sorted by key.
\<close>

fun add_to_group :: "string \<Rightarrow> row \<Rightarrow> (string \<times> row list) list \<Rightarrow> (string \<times> row list) list" where
  "add_to_group g r [] = [(g, [r])]"
| "add_to_group g r ((k, rs) # gs) =
     (if k = g then (k, rs @ [r]) # gs else (k, rs) # add_to_group g r gs)"

fun group_rows :: "string \<Rightarrow> row list \<Rightarrow> (string \<times> row list) list \<Rightarrow> (string \<times> row list) list" where
  "group_rows by [] gs = gs"
| "group_rows by (r # rs) gs =
     (case cell_at r by of
        None \<Rightarrow> group_rows by rs gs
      | Some g \<Rightarrow> group_rows by rs (add_to_group g r gs))"

definition groupby :: "dataframe \<Rightarrow> string \<Rightarrow> error + (string \<times> row list) list" where
  "groupby df by =
     (if by \<in> set (columns df) then Inr (sort_key fst (group_rows by (rows df) []))
      else Inl (KeyError by))"

text \<open>
  \<^verbatim>\<open>x == s\<close> on a pandas series (a null cell is unequal to every string) and \<^verbatim>\<open>.sum()\<close>
  of the boolean series, the number of its true entries.
\<close>

definition series_eq :: "cell list \<Rightarrow> string \<Rightarrow> bool list" where
  "series_eq x s = map (\<lambda>c. c = Some s) x"

definition bool_sum :: "bool list \<Rightarrow> nat" where
  "bool_sum bs = sum_list (map (\<lambda>b. if b then 1 else 0) bs)"

text \<open>
  The named aggregation of \<^verbatim>\<open>count_joined\<close>: \<^verbatim>\<open>size\<close> of the genotype column of the
  group, and the two lambdas on the \<^verbatim>\<open>TDP43_kd\<close> and \<^verbatim>\<open>rescueExpression\<close> columns of
  the group. A column that the frame lacks raises.
\<close>

definition agg :: "dataframe \<Rightarrow> (string \<times> row list) list \<Rightarrow> error + summary_row list" where
  "agg df groups =
     (if ''TDP43_kd'' \<notin> set (columns df) then Inl (KeyError ''TDP43_kd'')
      else if ''rescueExpression'' \<notin> set (columns df) then Inl (KeyError ''rescueExpression'')
      else Inr (map (\<lambda>(g, rs).
             \<lparr>genotype = g,
              cryptic_count = length (map (\<lambda>r. cell_at r ''genotype'') rs),
              TDP34_kd_associated =
                bool_sum (series_eq (map (\<lambda>r. cell_at r ''TDP43_kd'') rs) ''siTDP43''),
              rescueInduced =
                bool_sum (series_eq (map (\<lambda>r. cell_at r ''rescueExpression'') rs) ''rescueInduced'')\<rparr>)
           groups))"

section \<open>EventFilter: \<^verbatim>\<open>filter_splice\<close>\<close>

definition filter_splice :: "fs \<Rightarrow> path \<Rightarrow> error + dataframe" where
  "filter_splice fs splice_events_path =
     (let options = [''novel_acceptor'', ''novel_exon_skip'', ''novel_donor''] in
      case pd_read_csv fs splice_events_path of
        Inl e \<Rightarrow> Inl e
      | Inr splice_df \<Rightarrow>
          (case column splice_df ''junc_cat'' of
             Inl e \<Rightarrow> Inl e
           | Inr junc_cat \<Rightarrow> Inr (loc splice_df (isin junc_cat options))))"

section \<open>DatasetJoiner: \<^verbatim>\<open>join_datasets\<close>\<close>

text \<open>
  The first join passes \<^verbatim>\<open>join_type="inner"\<close>; the second passes no join type.
\<close>

definition join_datasets :: "fs \<Rightarrow> table \<Rightarrow> dataframe \<Rightarrow> path \<Rightarrow> error + table" where
  "join_datasets fs parquet_table splice_events metadata =
     (let ds2 = from_pandas splice_events in
      case table_join parquet_table ds2 ''junction_coords'' Inner of
        Inl e \<Rightarrow> Inl e
      | Inr splice_joined_ds \<Rightarrow>
          (case pv_read_csv fs metadata of
             Inl e \<Rightarrow> Inl e
           | Inr ds3 \<Rightarrow> table_join splice_joined_ds ds3 ''sample_name'' default_join_type))"

section \<open>SummaryAggregator: \<^verbatim>\<open>count_joined\<close>\<close>

text \<open>
  \<open>groupby_agg\<close> is the protected expression
  \<^verbatim>\<open>joined_df.groupby('genotype').agg(...)\<close>.
  The \<^verbatim>\<open>try\<close> body returns the counted frame. The \<^verbatim>\<open>except\<close> clause prints the error
  and ends, and control then reaches the bare \<^verbatim>\<open>raise\<close> below the \<^verbatim>\<open>try\<close> statement,
  where no exception is active: Python raises \<^verbatim>\<open>RuntimeError\<close>.
\<close>

definition groupby_agg :: "dataframe \<Rightarrow> error + summary_row list" where
  "groupby_agg df =
     (case groupby df ''genotype'' of
        Inl e \<Rightarrow> Inl e
      | Inr groups \<Rightarrow> agg df groups)"

definition count_joined :: "table \<Rightarrow> error + summary_row list" where
  "count_joined joined_df =
     (let joined_df = to_pandas joined_df in
      case groupby_agg joined_df of
        Inr counted_df \<Rightarrow> Inr counted_df
      | Inl e \<Rightarrow> Inl RuntimeError)"

section \<open>ConditionFilter: \<^verbatim>\<open>filter_joined\<close>\<close>

definition filter_joined :: "table \<Rightarrow> fs \<Rightarrow> (error + table) \<times> fs" where
  "filter_joined joined_df fs =
     (case column joined_df ''TDP43_kd'' of
        Inl e \<Rightarrow> (Inl e, fs)
      | Inr kd \<Rightarrow>
          (let filtered_df = table_filter joined_df (pc_equal kd ''siTDP43'') in
           case pv_write_csv filtered_df [''unfiltered_cryptic_data.csv''] fs of
             (Inl e, fs') \<Rightarrow> (Inl e, fs')
           | (Inr u, fs') \<Rightarrow>
               (case column filtered_df ''rescueExpression'' of
                  Inl e \<Rightarrow> (Inl e, fs')
                | Inr rescue \<Rightarrow>
                    (Inr (table_filter filtered_df (pc_equal rescue ''rescueInduced'')), fs'))))"

text \<open>
  The same selection as the specification words it: one pass over the joined table
  with the conjunction of the two predicates.
\<close>

definition filter_joined_single_pass :: "table \<Rightarrow> table" where
  "filter_joined_single_pass joined_df =
     joined_df\<lparr>rows :=
       filter (\<lambda>r. cell_at r ''TDP43_kd'' = Some ''siTDP43''
                 \<and> cell_at r ''rescueExpression'' = Some ''rescueInduced'')
         (rows joined_df)\<rparr>"

section \<open>PipelineOrchestrator: \<^verbatim>\<open>process_data\<close> and the script\<close>

fun remove_files :: "path list \<Rightarrow> fs \<Rightarrow> (error + unit) \<times> fs" where
  "remove_files [] fs = (Inr (), fs)"
| "remove_files (file # files) fs =
     (case os_remove file fs of
        (Inl e, fs') \<Rightarrow> (Inl e, fs')
      | (Inr u, fs') \<Rightarrow> remove_files files fs')"

definition process_data ::
  "path \<Rightarrow> path \<Rightarrow> path \<Rightarrow> path \<Rightarrow> fs \<Rightarrow> (error + table \<times> summary_row list) \<times> fs" where
  "process_data zip_path splice_events sample_metadata extract_dir fs =
     (case extract_all_parquet_from_zip zip_path extract_dir fs of
        (Inl e, fs1) \<Rightarrow> (Inl e, fs1)
      | (Inr parquet_files, fs1) \<Rightarrow>
     (case load_parquet_files fs1 parquet_files of
        Inl e \<Rightarrow> (Inl e, fs1)
      | Inr parquet_dataset \<Rightarrow>
     (case filter_splice fs1 splice_events of
        Inl e \<Rightarrow> (Inl e, fs1)
      | Inr filtered_df \<Rightarrow>
     (case join_datasets fs1 parquet_dataset filtered_df sample_metadata of
        Inl e \<Rightarrow> (Inl e, fs1)
      | Inr joined_df \<Rightarrow>
     (case filter_joined joined_df fs1 of
        (Inl e, fs2) \<Rightarrow> (Inl e, fs2)
      | (Inr filtered_data_df, fs2) \<Rightarrow>
     (case count_joined joined_df of
        Inl e \<Rightarrow> (Inl e, fs2)
      | Inr counted_data_df \<Rightarrow>
     (case remove_files parquet_files fs2 of
        (Inl e, fs3) \<Rightarrow> (Inl e, fs3)
      | (Inr u, fs3) \<Rightarrow>
     (case os_rmdir extract_dir fs3 of
        (Inl e, fs4) \<Rightarrow> (Inl e, fs4)
      | (Inr u', fs4) \<Rightarrow> (Inr (filtered_data_df, counted_data_df), fs4)))))))))"

text \<open>The paths the script fixes, and the default of \<^verbatim>\<open>extract_dir\<close>.\<close>

definition zip_path :: path where
  "zip_path = [''input_data'', ''hek_all_junctions.parquet.zip'']"

definition splice_events_path :: path where
  "splice_events_path = [''input_data'', ''splice_events.csv'']"

definition sample_metadata_path :: path where
  "sample_metadata_path = [''input_data'', ''metadata_halleger_hek.csv'']"

definition default_extract_dir :: path where
  "default_extract_dir = [''extracted_parquet'']"


section \<open>Example inputs\<close>

text \<open>
  The scenario of the specification: two junctions measured in one sample, one of them
  classified as a cryptic event, and the metadata of that sample.
\<close>

definition ex_parquet :: table where
  "ex_parquet =
     \<lparr>columns = [''junction_coords'', ''sample_name''],
      rows = [[(''junction_coords'', Some ''cA''), (''sample_name'', Some ''s1'')],
              [(''junction_coords'', Some ''cB''), (''sample_name'', Some ''s1'')]]\<rparr>"

definition ex_events :: table where
  "ex_events =
     \<lparr>columns = [''junction_coords'', ''junc_cat''],
      rows = [[(''junction_coords'', Some ''cA''), (''junc_cat'', Some ''novel_acceptor'')],
              [(''junction_coords'', Some ''cB''), (''junc_cat'', Some ''intron_retention'')]]\<rparr>"

definition ex_metadata :: table where
  "ex_metadata =
     \<lparr>columns = [''sample_name'', ''genotype'', ''TDP43_kd'', ''rescueExpression''],
      rows = [[(''sample_name'', Some ''s1''), (''genotype'', Some ''KO''),
               (''TDP43_kd'', Some ''siTDP43''), (''rescueExpression'', Some ''rescueInduced'')]]\<rparr>"

definition ex_fs :: fs where
  "ex_fs =
     [([''input_data''], Dir),
      (zip_path, ZipFile [([''shard0.parquet''], Parquet ex_parquet)]),
      (splice_events_path, File (Csv ex_events)),
      (sample_metadata_path, File (Csv ex_metadata))]"






definition rerun_fs :: fs where
  "rerun_fs =
     ex_fs @ [([''extracted_parquet''], Dir),
              ([''extracted_parquet'', ''old.parquet''], File (Parquet ex_parquet))]"

definition ex_metadata_other_sample :: table where
  "ex_metadata_other_sample =
     \<lparr>columns = [''sample_name'', ''genotype'', ''TDP43_kd'', ''rescueExpression''],
      rows = [[(''sample_name'', Some ''s2''), (''genotype'', Some ''KO''),
               (''TDP43_kd'', Some ''siTDP43''), (''rescueExpression'', Some ''rescueInduced'')]]\<rparr>"

definition other_sample_fs :: fs where
  "other_sample_fs =
     [([''input_data''], Dir),
      (sample_metadata_path, File (Csv ex_metadata_other_sample))]"

text \<open>A frame of cryptic events with the default index.\<close>

definition ex_cryptic_events :: dataframe where
  "ex_cryptic_events =
     \<lparr>columns = [''junction_coords'', ''junc_cat''],
      rows = [[(''junction_coords'', Some ''cA''), (''junc_cat'', Some ''novel_acceptor'')]],
      frame_index = RangeIndex\<rparr>"

text \<open>
  A file system with two classification files at paths of its own: the events of the
  scenario, and events of which none is cryptic.
\<close>

definition ex_other_events :: table where
  "ex_other_events =
     \<lparr>columns = [''junction_coords'', ''junc_cat''],
      rows = [[(''junction_coords'', Some ''cB''), (''junc_cat'', Some ''intron_retention'')],
              [(''junction_coords'', Some ''cD''), (''junc_cat'', Some ''Novel_Acceptor'')],
              [(''junction_coords'', Some ''cE''), (''junc_cat'', None)]]\<rparr>"

definition events_fs :: fs where
  "events_fs =
     [([''classes''], Dir),
      ([''classes'', ''events.csv''], File (Csv ex_events)),
      ([''none.csv''], File (Csv ex_other_events))]"

text \<open>A joined table of three rows over two genotypes.\<close>

definition ex_joined :: table where
  "ex_joined =
     \<lparr>columns = [''junction_coords'', ''sample_name'', ''junc_cat'', ''genotype'', ''TDP43_kd'',
                 ''rescueExpression''],
      rows =
        [[(''junction_coords'', Some ''cA''), (''sample_name'', Some ''s1''),
          (''junc_cat'', Some ''novel_acceptor''), (''genotype'', Some ''WT''),
          (''TDP43_kd'', Some ''siTDP43''), (''rescueExpression'', Some ''rescueInduced'')],
         [(''junction_coords'', Some ''cA''), (''sample_name'', Some ''s2''),
          (''junc_cat'', Some ''novel_acceptor''), (''genotype'', Some ''KO''),
          (''TDP43_kd'', Some ''siControl''), (''rescueExpression'', Some ''rescueInduced'')],
         [(''junction_coords'', Some ''cC''), (''sample_name'', Some ''s3''),
          (''junc_cat'', Some ''novel_donor''), (''genotype'', Some ''KO''),
          (''TDP43_kd'', Some ''siTDP43''), (''rescueExpression'', Some ''rescueInduced'')]]\<rparr>"

definition ex_summary :: "summary_row list" where
  "ex_summary =
     [\<lparr>genotype = ''KO'', cryptic_count = 2, TDP34_kd_associated = 1, rescueInduced = 2\<rparr>,
      \<lparr>genotype = ''WT'', cryptic_count = 1, TDP34_kd_associated = 1, rescueInduced = 1\<rparr>]"

text \<open>Two shards already extracted, with different rows.\<close>

definition shard_a :: table where
  "shard_a =
     \<lparr>columns = [''junction_coords'', ''sample_name''],
      rows = [[(''junction_coords'', Some ''cA''), (''sample_name'', Some ''s1'')]]\<rparr>"

definition shard_b :: table where
  "shard_b =
     \<lparr>columns = [''junction_coords'', ''sample_name''],
      rows = [[(''junction_coords'', Some ''cB''), (''sample_name'', Some ''s2'')]]\<rparr>"

definition two_shards_fs :: fs where
  "two_shards_fs =
     [([''extracted_parquet''], Dir),
      ([''extracted_parquet'', ''a.parquet''], File (Parquet shard_a)),
      ([''extracted_parquet'', ''b.parquet''], File (Parquet shard_b))]"

text \<open>An archive without any shard, unpacked into a fresh directory.\<close>

definition no_shard_fs :: fs where
  "no_shard_fs =
     [([''input_data''], Dir),
      (zip_path, ZipFile [([''readme.txt''], Other ''notes'')])]"

text \<open>
  An archive of one shard and one text file, unpacked into a directory that already
  holds a shard of an earlier run.
\<close>

definition leftover_fs :: fs where
  "leftover_fs =
     [([''input_data''], Dir),
      (zip_path, ZipFile [([''shard0.parquet''], Parquet shard_a),
                          ([''readme.txt''], Other ''notes'')]),
      ([''extracted_parquet''], Dir),
      ([''extracted_parquet'', ''old.parquet''], File (Parquet shard_b))]"

section \<open>Auxiliary notions of the proofs\<close>

text \<open>The rows collected under a key so far, and the paths at or below a directory.\<close>

definition group_of :: "(string \<times> row list) list \<Rightarrow> string \<Rightarrow> row list" where
  "group_of gs g = (case map_of gs g of None \<Rightarrow> [] | Some rs \<Rightarrow> rs)"


section \<open>Masks and filters\<close>

lemma loc_map_filter:
  "map fst (filter snd (zip xs (map f xs))) = filter f xs"
  by (induction xs) auto

lemma table_filter_map:
  "map fst (filter (\<lambda>rm. snd rm = Some True) (zip xs (map f xs))) =
     filter (\<lambda>x. f x = Some True) xs"
  by (induction xs) auto

lemma table_filter_column:
  "table_filter t (pc_equal (map (\<lambda>r. cell_at r c) (rows t)) v) =
     t\<lparr>rows := filter (\<lambda>r. cell_at r c = Some v) (rows t)\<rparr>"
proof -
  have "map fst (filter (\<lambda>rm. snd rm = Some True)
          (zip (rows t) (map (\<lambda>r. map_option (\<lambda>x. x = v) (cell_at r c)) (rows t)))) =
        filter (\<lambda>r. map_option (\<lambda>x. x = v) (cell_at r c) = Some True) (rows t)"
    by (rule table_filter_map)
  also have "\<dots> = filter (\<lambda>r. cell_at r c = Some v) (rows t)"
    by (rule filter_cong) (auto simp: map_option_case split: option.splits)
  finally show ?thesis
    by (simp add: table_filter_def pc_equal_def comp_def)
qed

text \<open>
  \<^verbatim>\<open>filter_joined\<close> once the knockdown column is there: the intermediate table is
  written, and the second filter needs the rescue column.
\<close>

lemma filter_joined_steps:
  assumes kd: "''TDP43_kd'' \<in> set (columns t)"
  shows "filter_joined t fs =
     (case pv_write_csv
             (t\<lparr>rows := filter (\<lambda>r. cell_at r ''TDP43_kd'' = Some ''siTDP43'') (rows t)\<rparr>)
             [''unfiltered_cryptic_data.csv''] fs of
        (Inl e, fs') \<Rightarrow> (Inl e, fs')
      | (Inr u, fs') \<Rightarrow>
          (if ''rescueExpression'' \<in> set (columns t)
           then (Inr (filter_joined_single_pass t), fs')
           else (Inl (KeyError ''rescueExpression''), fs')))"
proof -
  let ?t1 = "t\<lparr>rows := filter (\<lambda>r. cell_at r ''TDP43_kd'' = Some ''siTDP43'') (rows t)\<rparr>"
  have one: "table_filter t (pc_equal (map (\<lambda>r. cell_at r ''TDP43_kd'') (rows t)) ''siTDP43'') = ?t1"
    by (rule table_filter_column)
  have two: "table_filter ?t1
               (pc_equal (map (\<lambda>r. cell_at r ''rescueExpression'') (rows ?t1)) ''rescueInduced'')
             = filter_joined_single_pass t"
    unfolding table_filter_column by (simp add: filter_joined_single_pass_def)
  have col2: "column ?t1 ''rescueExpression'' =
      (if ''rescueExpression'' \<in> set (columns t)
       then Inr (map (\<lambda>r. cell_at r ''rescueExpression'') (rows ?t1))
       else Inl (KeyError ''rescueExpression''))"
    by (simp add: column_def)
  show ?thesis
    unfolding filter_joined_def column_def using kd
    apply (simp only: if_True sum.case Let_def one)
    apply (simp only: col2 [unfolded column_def])
    using two apply (simp split: prod.splits sum.splits)
    done
qed

section \<open>Grouping\<close>

lemma add_to_group_map_fst:
  "map fst (add_to_group g r gs) =
     (if g \<in> set (map fst gs) then map fst gs else map fst gs @ [g])"
  by (induction g r gs rule: add_to_group.induct) auto

lemma add_to_group_keys:
  "set (map fst (add_to_group g r gs)) = insert g (set (map fst gs))"
  unfolding add_to_group_map_fst by auto

lemma add_to_group_distinct:
  "distinct (map fst gs) \<Longrightarrow> distinct (map fst (add_to_group g r gs))"
  unfolding add_to_group_map_fst by auto

lemma add_to_group_group_of:
  "group_of (add_to_group g r gs) k = (if k = g then group_of gs g @ [r] else group_of gs k)"
  by (induction gs) (auto simp: group_of_def)

lemma group_rows_keys:
  "set (map fst (group_rows by rs gs)) =
     set (map fst gs) \<union> {g. \<exists>r\<in>set rs. cell_at r by = Some g}"
proof (induction rs arbitrary: gs)
  case Nil
  then show ?case by simp
next
  case (Cons r rs)
  show ?case
  proof (cases "cell_at r by")
    case None
    then show ?thesis using Cons [of gs] by auto
  next
    case (Some g)
    then show ?thesis
      using Cons [of "add_to_group g r gs"] add_to_group_keys [of g r gs] by auto
  qed
qed

lemma group_rows_distinct:
  "distinct (map fst gs) \<Longrightarrow> distinct (map fst (group_rows by rs gs))"
  by (induction rs arbitrary: gs) (auto simp: add_to_group_distinct split: option.splits)

lemma group_rows_group_of:
  "group_of (group_rows by rs gs) g = group_of gs g @ filter (\<lambda>r. cell_at r by = Some g) rs"
  by (induction rs arbitrary: gs) (auto simp: add_to_group_group_of split: option.splits)

lemma group_rows_member:
  assumes "(g, rs) \<in> set (group_rows by xs [])"
  shows "rs = filter (\<lambda>r. cell_at r by = Some g) xs"
proof -
  have "distinct (map fst (group_rows by xs []))"
    by (rule group_rows_distinct) simp
  with assms have "map_of (group_rows by xs []) g = Some rs" by simp
  then have "group_of (group_rows by xs []) g = rs" by (simp add: group_of_def)
  then show ?thesis unfolding group_rows_group_of by (simp add: group_of_def)
qed

lemma distinct_keys_sort_key:
  "distinct (map fst (sort_key fst xs)) = distinct (map fst xs)"
  by (simp add: distinct_map)

lemma bool_sum_series_eq:
  "bool_sum (series_eq (map f rs) v) = length (filter (\<lambda>r. f r = Some v) rs)"
  by (induction rs) (auto simp: bool_sum_def series_eq_def)

lemma groupby_agg_columns:
  "(\<exists>counted_df. groupby_agg df = Inr counted_df) \<longleftrightarrow>
     ''genotype'' \<in> set (columns df) \<and> ''TDP43_kd'' \<in> set (columns df)
       \<and> ''rescueExpression'' \<in> set (columns df)"
  by (auto simp: groupby_agg_def groupby_def agg_def split: sum.splits if_splits)

lemma count_joined_groupby_agg:
  "count_joined t = Inr counted_df \<longleftrightarrow> groupby_agg (to_pandas t) = Inr counted_df"
  by (auto simp: count_joined_def split: sum.splits)

lemma to_pandas_simps [simp]:
  "columns (to_pandas t) = columns t" "rows (to_pandas t) = rows t"
  by (simp_all add: to_pandas_def data_frame_def)

lemma groupby_agg_rows:
  assumes "groupby_agg df = Inr counted_df"
  shows "distinct (map genotype counted_df)"
    and "sorted (map genotype counted_df)"
    and "set (map genotype counted_df) = {g. \<exists>r\<in>set (rows df). cell_at r ''genotype'' = Some g}"
    and "\<forall>s\<in>set counted_df.
           cryptic_count s =
             length (filter (\<lambda>r. cell_at r ''genotype'' = Some (genotype s)) (rows df))
         \<and> TDP34_kd_associated s =
             length (filter (\<lambda>r. cell_at r ''TDP43_kd'' = Some ''siTDP43'')
               (filter (\<lambda>r. cell_at r ''genotype'' = Some (genotype s)) (rows df)))
         \<and> rescueInduced s =
             length (filter (\<lambda>r. cell_at r ''rescueExpression'' = Some ''rescueInduced'')
               (filter (\<lambda>r. cell_at r ''genotype'' = Some (genotype s)) (rows df)))"
proof -
  let ?gs = "sort_key fst (group_rows ''genotype'' (rows df) [])"
  let ?mk = "\<lambda>(g, rs).
             \<lparr>genotype = g,
              cryptic_count = length (map (\<lambda>r. cell_at r ''genotype'') rs),
              TDP34_kd_associated =
                bool_sum (series_eq (map (\<lambda>r. cell_at r ''TDP43_kd'') rs) ''siTDP43''),
              rescueInduced =
                bool_sum (series_eq (map (\<lambda>r. cell_at r ''rescueExpression'') rs) ''rescueInduced'')\<rparr>"
  from assms have eq: "counted_df = map ?mk ?gs"
    by (auto simp: groupby_agg_def groupby_def agg_def split: sum.splits if_splits)
  have keys: "map genotype counted_df = map fst ?gs"
    unfolding eq by (simp add: comp_def case_prod_beta)
  show "distinct (map genotype counted_df)"
    unfolding keys distinct_keys_sort_key by (rule group_rows_distinct) simp
  show "sorted (map genotype counted_df)"
    unfolding keys by simp
  show "set (map genotype counted_df) = {g. \<exists>r\<in>set (rows df). cell_at r ''genotype'' = Some g}"
    unfolding keys using group_rows_keys [of "''genotype''" "rows df" "[]"] by simp
  show "\<forall>s\<in>set counted_df.
           cryptic_count s =
             length (filter (\<lambda>r. cell_at r ''genotype'' = Some (genotype s)) (rows df))
         \<and> TDP34_kd_associated s =
             length (filter (\<lambda>r. cell_at r ''TDP43_kd'' = Some ''siTDP43'')
               (filter (\<lambda>r. cell_at r ''genotype'' = Some (genotype s)) (rows df)))
         \<and> rescueInduced s =
             length (filter (\<lambda>r. cell_at r ''rescueExpression'' = Some ''rescueInduced'')
               (filter (\<lambda>r. cell_at r ''genotype'' = Some (genotype s)) (rows df)))"
  proof
    fix s assume "s \<in> set counted_df"
    then obtain g rs where m: "(g, rs) \<in> set (group_rows ''genotype'' (rows df) [])"
      and s: "s = ?mk (g, rs)"
      unfolding eq by auto
    from m have rs: "rs = filter (\<lambda>r. cell_at r ''genotype'' = Some g) (rows df)"
      by (rule group_rows_member)
    show "cryptic_count s =
             length (filter (\<lambda>r. cell_at r ''genotype'' = Some (genotype s)) (rows df))
         \<and> TDP34_kd_associated s =
             length (filter (\<lambda>r. cell_at r ''TDP43_kd'' = Some ''siTDP43'')
               (filter (\<lambda>r. cell_at r ''genotype'' = Some (genotype s)) (rows df)))
         \<and> rescueInduced s =
             length (filter (\<lambda>r. cell_at r ''rescueExpression'' = Some ''rescueInduced'')
               (filter (\<lambda>r. cell_at r ''genotype'' = Some (genotype s)) (rows df)))"
      unfolding s by (simp add: bool_sum_series_eq rs [symmetric])
  qed
qed

section \<open>The loader loop\<close>

lemma load_loop_all_ok:
  assumes "\<forall>f\<in>set files. \<exists>t. read_parquet fs f = Inr t"
  shows "load_loop fs files acc =
           (if files = [] then Inr acc else map_sum id Some (read_parquet fs (last files)))"
  using assms
proof (induction files arbitrary: acc)
  case Nil
  then show ?case by simp
next
  case (Cons f files)
  then obtain t where t: "read_parquet fs f = Inr t" by auto
  show ?case
  proof (cases "files = []")
    case True
    then show ?thesis using t by simp
  next
    case False
    then show ?thesis using t Cons by simp
  qed
qed

section \<open>Loader, event filter, condition filter and aggregator\<close>

text \<open>
  C3: for a non-empty list of shard paths that all load, \<^verbatim>\<open>load_parquet_files\<close> returns
  exactly the table read from the last path of the list; what the earlier shards held is
  not part of the result.
\<close>

theorem load_parquet_files_last_shard:
  assumes "parquet_files \<noteq> []"
    and "\<forall>f\<in>set parquet_files. \<exists>t. read_parquet fs f = Inr t"
  shows "load_parquet_files fs parquet_files = read_parquet fs (last parquet_files)"
proof -
  from assms obtain t where t: "read_parquet fs (last parquet_files) = Inr t"
    using last_in_set by blast
  show ?thesis
    using assms t by (simp add: load_parquet_files_def load_loop_all_ok)
qed

theorem load_parquet_files_last_shard_witness:
  "load_parquet_files two_shards_fs
     [[''extracted_parquet'', ''a.parquet''], [''extracted_parquet'', ''b.parquet'']] = Inr shard_b
   \<and> read_parquet two_shards_fs [''extracted_parquet'', ''a.parquet''] = Inr shard_a
   \<and> rows shard_b = [[(''junction_coords'', Some ''cB''), (''sample_name'', Some ''s2'')]]"
proof -
  let ?files = "[[''extracted_parquet'', ''a.parquet''], [''extracted_parquet'', ''b.parquet'']]"
  have a: "read_parquet two_shards_fs [''extracted_parquet'', ''a.parquet''] = Inr shard_a"
    by (simp add: read_parquet_def lookup_def two_shards_fs_def)
  have b: "read_parquet two_shards_fs [''extracted_parquet'', ''b.parquet''] = Inr shard_b"
    by (simp add: read_parquet_def lookup_def two_shards_fs_def)
  have h1: "?files \<noteq> []" by simp
  have h2: "\<forall>f\<in>set ?files. \<exists>t. read_parquet two_shards_fs f = Inr t"
    using a b by simp
  show ?thesis
    using load_parquet_files_last_shard [OF h1 h2] a b by (simp add: shard_b_def)
qed

text \<open>
  C2: when the classification file, at whatever path, parses to a table with a
  \<^verbatim>\<open>junc_cat\<close> column, \<^verbatim>\<open>filter_splice\<close> returns, without an error, the rows of that
  table whose \<^verbatim>\<open>junc_cat\<close> is exactly \<^verbatim>\<open>novel_acceptor\<close>, \<^verbatim>\<open>novel_exon_skip\<close> or
  \<^verbatim>\<open>novel_donor\<close>, in their order and multiplicity, and no other row; the result may be
  empty.
\<close>

theorem filter_splice_allow_list:
  assumes "pd_read_csv fs csv_file = Inr splice_df"
    and "''junc_cat'' \<in> set (columns splice_df)"
  shows "\<exists>filtered_df. filter_splice fs csv_file = Inr filtered_df
           \<and> columns filtered_df = columns splice_df
           \<and> rows filtered_df =
               filter (\<lambda>r. cell_at r ''junc_cat'' = Some ''novel_acceptor''
                          \<or> cell_at r ''junc_cat'' = Some ''novel_exon_skip''
                          \<or> cell_at r ''junc_cat'' = Some ''novel_donor'') (rows splice_df)
           \<and> (\<forall>r. r \<in> set (rows filtered_df) \<longleftrightarrow>
                  r \<in> set (rows splice_df)
                  \<and> (cell_at r ''junc_cat'' = Some ''novel_acceptor''
                      \<or> cell_at r ''junc_cat'' = Some ''novel_exon_skip''
                      \<or> cell_at r ''junc_cat'' = Some ''novel_donor''))"
proof -
  have "map fst (filter snd (zip (rows splice_df)
           (isin (map (\<lambda>r. cell_at r ''junc_cat'') (rows splice_df))
              [''novel_acceptor'', ''novel_exon_skip'', ''novel_donor'']))) =
        filter (\<lambda>r. cell_at r ''junc_cat'' = Some ''novel_acceptor''
                          \<or> cell_at r ''junc_cat'' = Some ''novel_exon_skip''
                          \<or> cell_at r ''junc_cat'' = Some ''novel_donor'') (rows splice_df)"
    unfolding isin_def map_map comp_def loc_map_filter
    by (rule filter_cong) (auto split: option.splits)
  then show ?thesis
    using assms by (simp add: filter_splice_def column_def loc_def)
qed

text \<open>
  The witness reads the classification of \<open>events_fs\<close> at a path of its own: the row of
  another category is dropped, and a file without any cryptic event gives the empty
  frame, not an error.
\<close>

theorem filter_splice_allow_list_witness:
  "pd_read_csv events_fs [''classes'', ''events.csv''] = Inr (data_frame ex_events)
   \<and> ''junc_cat'' \<in> set (columns (data_frame ex_events))
   \<and> \<not> isl (filter_splice events_fs [''classes'', ''events.csv''])
   \<and> columns (projr (filter_splice events_fs [''classes'', ''events.csv'']))
       = [''junction_coords'', ''junc_cat'']
   \<and> rows (projr (filter_splice events_fs [''classes'', ''events.csv'']))
       = [[(''junction_coords'', Some ''cA''), (''junc_cat'', Some ''novel_acceptor'')]]
   \<and> pd_read_csv events_fs [''none.csv''] = Inr (data_frame ex_other_events)
   \<and> rows (projr (filter_splice events_fs [''none.csv''])) = []
   \<and> \<not> isl (filter_splice events_fs [''none.csv''])"
proof -
  have h1: "pd_read_csv events_fs [''classes'', ''events.csv''] = Inr (data_frame ex_events)"
    by code_simp
  have h2: "''junc_cat'' \<in> set (columns (data_frame ex_events))"
    by code_simp
  from filter_splice_allow_list [OF h1 h2]
  obtain filtered_df where f: "filter_splice events_fs [''classes'', ''events.csv''] = Inr filtered_df"
    and c: "columns filtered_df = columns (data_frame ex_events)"
    and r: "rows filtered_df =
               filter (\<lambda>r. cell_at r ''junc_cat'' = Some ''novel_acceptor''
                          \<or> cell_at r ''junc_cat'' = Some ''novel_exon_skip''
                          \<or> cell_at r ''junc_cat'' = Some ''novel_donor'') (rows (data_frame ex_events))"
    by blast
  have v: "columns filtered_df = [''junction_coords'', ''junc_cat'']"
    "rows filtered_df
       = [[(''junction_coords'', Some ''cA''), (''junc_cat'', Some ''novel_acceptor'')]]"
    unfolding c r by (simp_all add: data_frame_def ex_events_def cell_at_def)
  have g1: "pd_read_csv events_fs [''none.csv''] = Inr (data_frame ex_other_events)"
    by code_simp
  have g2: "''junc_cat'' \<in> set (columns (data_frame ex_other_events))"
    by code_simp
  from filter_splice_allow_list [OF g1 g2]
  obtain empty_df where e: "filter_splice events_fs [''none.csv''] = Inr empty_df"
    and er: "rows empty_df =
               filter (\<lambda>r. cell_at r ''junc_cat'' = Some ''novel_acceptor''
                          \<or> cell_at r ''junc_cat'' = Some ''novel_exon_skip''
                          \<or> cell_at r ''junc_cat'' = Some ''novel_donor'') (rows (data_frame ex_other_events))"
    by blast
  have "rows empty_df = []"
    unfolding er by (simp add: data_frame_def ex_other_events_def cell_at_def)
  with e f h1 h2 v g1 show ?thesis by simp
qed

text \<open>
  C5: whenever \<^verbatim>\<open>filter_joined\<close> returns a table, that table is the joined table
  filtered in one pass by the conjunction \<^verbatim>\<open>TDP43_kd == 'siTDP43'\<close> and
  \<^verbatim>\<open>rescueExpression == 'rescueInduced'\<close>; and it does return it whenever the joined
  table has both columns and the intermediate file can be written.
\<close>

theorem filter_joined_is_conjunction:
  "(\<forall>t' fs'. filter_joined t fs = (Inr t', fs') \<longrightarrow> t' = filter_joined_single_pass t)
   \<and> (''TDP43_kd'' \<in> set (columns t) \<and> ''rescueExpression'' \<in> set (columns t)
        \<and> lookup fs [''unfiltered_cryptic_data.csv''] \<noteq> Some Dir
      \<longrightarrow> fst (filter_joined t fs) = Inr (filter_joined_single_pass t))"
proof (intro conjI allI impI)
  fix t' fs'
  assume r: "filter_joined t fs = (Inr t', fs')"
  show "t' = filter_joined_single_pass t"
  proof (cases "''TDP43_kd'' \<in> set (columns t)")
    case True
    from r show ?thesis
      unfolding filter_joined_steps [OF True]
      by (auto split: prod.splits sum.splits if_splits)
  next
    case False
    with r show ?thesis by (simp add: filter_joined_def column_def)
  qed
next
  assume a: "''TDP43_kd'' \<in> set (columns t) \<and> ''rescueExpression'' \<in> set (columns t)
        \<and> lookup fs [''unfiltered_cryptic_data.csv''] \<noteq> Some Dir"
  then have kd: "''TDP43_kd'' \<in> set (columns t)" by simp
  from a show "fst (filter_joined t fs) = Inr (filter_joined_single_pass t)"
    unfolding filter_joined_steps [OF kd]
    by (simp add: pv_write_csv_def write_file_def lookup_def)
qed

theorem filter_joined_is_conjunction_witness:
  "''TDP43_kd'' \<in> set (columns ex_joined) \<and> ''rescueExpression'' \<in> set (columns ex_joined)
   \<and> lookup [] [''unfiltered_cryptic_data.csv''] \<noteq> Some Dir
   \<and> fst (filter_joined ex_joined []) = Inr (filter_joined_single_pass ex_joined)
   \<and> map (\<lambda>r. cell_at r ''sample_name'') (rows (filter_joined_single_pass ex_joined))
       = [Some ''s1'', Some ''s3'']"
proof -
  have h: "''TDP43_kd'' \<in> set (columns ex_joined) \<and> ''rescueExpression'' \<in> set (columns ex_joined)
   \<and> lookup [] [''unfiltered_cryptic_data.csv''] \<noteq> Some Dir"
    by (simp add: ex_joined_def lookup_def)
  have v: "map (\<lambda>r. cell_at r ''sample_name'') (rows (filter_joined_single_pass ex_joined))
       = [Some ''s1'', Some ''s3'']"
    by (simp add: filter_joined_single_pass_def ex_joined_def cell_at_def)
  from filter_joined_is_conjunction [of ex_joined "[]"] h
  have "fst (filter_joined ex_joined []) = Inr (filter_joined_single_pass ex_joined)"
    by blast
  with h v show ?thesis by simp
qed

text \<open>
  C4: for a joined table with the columns \<^verbatim>\<open>genotype\<close>, \<^verbatim>\<open>TDP43_kd\<close> and
  \<^verbatim>\<open>rescueExpression\<close>, \<^verbatim>\<open>count_joined\<close> returns one row for each genotype value
  of the table and no other row; in the row of genotype \<open>g\<close>, \<^verbatim>\<open>cryptic_count\<close> is the
  number of rows of the table with genotype \<open>g\<close>, \<^verbatim>\<open>TDP34_kd_associated\<close> the number of
  those with \<^verbatim>\<open>TDP43_kd == 'siTDP43'\<close>, \<^verbatim>\<open>rescueInduced\<close> the number of those with
  \<^verbatim>\<open>rescueExpression == 'rescueInduced'\<close>, and neither exceeds \<^verbatim>\<open>cryptic_count\<close>. A
  genotype value is a string: \<^verbatim>\<open>groupby\<close> leaves rows with a null genotype out.
\<close>

theorem count_joined_per_genotype:
  assumes "''genotype'' \<in> set (columns t)"
    and "''TDP43_kd'' \<in> set (columns t)"
    and "''rescueExpression'' \<in> set (columns t)"
  shows "\<exists>counted_df. count_joined t = Inr counted_df
     \<and> distinct (map genotype counted_df)
     \<and> set (map genotype counted_df) = {g. \<exists>r\<in>set (rows t). cell_at r ''genotype'' = Some g}
     \<and> (\<forall>s\<in>set counted_df.
           cryptic_count s =
             length (filter (\<lambda>r. cell_at r ''genotype'' = Some (genotype s)) (rows t))
         \<and> TDP34_kd_associated s =
             length (filter (\<lambda>r. cell_at r ''genotype'' = Some (genotype s)
                                \<and> cell_at r ''TDP43_kd'' = Some ''siTDP43'') (rows t))
         \<and> rescueInduced s =
             length (filter (\<lambda>r. cell_at r ''genotype'' = Some (genotype s)
                                \<and> cell_at r ''rescueExpression'' = Some ''rescueInduced'') (rows t))
         \<and> TDP34_kd_associated s \<le> cryptic_count s
         \<and> rescueInduced s \<le> cryptic_count s)"
proof -
  from assms obtain counted_df where g: "groupby_agg (to_pandas t) = Inr counted_df"
    using groupby_agg_columns [of "to_pandas t"] by auto
  then have c: "count_joined t = Inr counted_df"
    by (simp add: count_joined_groupby_agg)
  note r = groupby_agg_rows [OF g, unfolded to_pandas_simps]
  have "\<forall>s\<in>set counted_df.
           cryptic_count s =
             length (filter (\<lambda>r. cell_at r ''genotype'' = Some (genotype s)) (rows t))
         \<and> TDP34_kd_associated s =
             length (filter (\<lambda>r. cell_at r ''genotype'' = Some (genotype s)
                                \<and> cell_at r ''TDP43_kd'' = Some ''siTDP43'') (rows t))
         \<and> rescueInduced s =
             length (filter (\<lambda>r. cell_at r ''genotype'' = Some (genotype s)
                                \<and> cell_at r ''rescueExpression'' = Some ''rescueInduced'') (rows t))
         \<and> TDP34_kd_associated s \<le> cryptic_count s
         \<and> rescueInduced s \<le> cryptic_count s"
  proof
    fix s assume "s \<in> set counted_df"
    with r(4) have e: "cryptic_count s =
             length (filter (\<lambda>r. cell_at r ''genotype'' = Some (genotype s)) (rows t))"
      "TDP34_kd_associated s = length (filter (\<lambda>r. cell_at r ''TDP43_kd'' = Some ''siTDP43'')
               (filter (\<lambda>r. cell_at r ''genotype'' = Some (genotype s)) (rows t)))"
      "rescueInduced s = length (filter (\<lambda>r. cell_at r ''rescueExpression'' = Some ''rescueInduced'')
               (filter (\<lambda>r. cell_at r ''genotype'' = Some (genotype s)) (rows t)))"
      by blast+
    have "TDP34_kd_associated s \<le> cryptic_count s" "rescueInduced s \<le> cryptic_count s"
      unfolding e by (rule length_filter_le)+
    then show "cryptic_count s =
             length (filter (\<lambda>r. cell_at r ''genotype'' = Some (genotype s)) (rows t))
         \<and> TDP34_kd_associated s =
             length (filter (\<lambda>r. cell_at r ''genotype'' = Some (genotype s)
                                \<and> cell_at r ''TDP43_kd'' = Some ''siTDP43'') (rows t))
         \<and> rescueInduced s =
             length (filter (\<lambda>r. cell_at r ''genotype'' = Some (genotype s)
                                \<and> cell_at r ''rescueExpression'' = Some ''rescueInduced'') (rows t))
         \<and> TDP34_kd_associated s \<le> cryptic_count s
         \<and> rescueInduced s \<le> cryptic_count s"
      using e by (simp add: conj_commute)
  qed
  with c r(1) r(3) show ?thesis by blast
qed

theorem count_joined_per_genotype_witness:
  "''genotype'' \<in> set (columns ex_joined) \<and> ''TDP43_kd'' \<in> set (columns ex_joined)
   \<and> ''rescueExpression'' \<in> set (columns ex_joined)
   \<and> count_joined ex_joined = Inr ex_summary
   \<and> distinct (map genotype ex_summary)
   \<and> set (map genotype ex_summary) = {''KO'', ''WT''}"
proof -
  have h1: "''genotype'' \<in> set (columns ex_joined)"
    and h2: "''TDP43_kd'' \<in> set (columns ex_joined)"
    and h3: "''rescueExpression'' \<in> set (columns ex_joined)"
    by (simp_all add: ex_joined_def)
  have v: "count_joined ex_joined = Inr ex_summary"
    by code_simp
  from count_joined_per_genotype [OF h1 h2 h3] v
  have "distinct (map genotype ex_summary)" by auto
  moreover have "set (map genotype ex_summary) = {''KO'', ''WT''}"
    by (simp add: ex_summary_def)
  ultimately show ?thesis using h1 h2 h3 v by simp
qed

text \<open>
  C8, as stated, fails: on the example table \<^verbatim>\<open>count_joined\<close> returns the summary.
\<close>

theorem count_joined_returns_counterexample:
  "count_joined ex_joined = Inr ex_summary \<and> \<not> isl (count_joined ex_joined)"
  by code_simp

text \<open>
  C8, amended: \<^verbatim>\<open>count_joined\<close> returns the summary table that the protected grouping
  computes whenever that grouping succeeds, which is whenever the table has the columns
  \<^verbatim>\<open>genotype\<close>, \<^verbatim>\<open>TDP43_kd\<close> and \<^verbatim>\<open>rescueExpression\<close>; it raises exactly when the
  protected grouping itself fails.
\<close>

theorem count_joined_raises_only_on_failure:
  "(\<forall>counted_df. groupby_agg (to_pandas t) = Inr counted_df \<longrightarrow> count_joined t = Inr counted_df)
   \<and> ((\<exists>e. count_joined t = Inl e) \<longleftrightarrow> (\<exists>e. groupby_agg (to_pandas t) = Inl e))
   \<and> ((\<exists>counted_df. count_joined t = Inr counted_df) \<longleftrightarrow>
        ''genotype'' \<in> set (columns t) \<and> ''TDP43_kd'' \<in> set (columns t)
        \<and> ''rescueExpression'' \<in> set (columns t))"
proof (intro conjI)
  show "\<forall>counted_df. groupby_agg (to_pandas t) = Inr counted_df \<longrightarrow> count_joined t = Inr counted_df"
    by (simp add: count_joined_def)
  show "(\<exists>e. count_joined t = Inl e) \<longleftrightarrow> (\<exists>e. groupby_agg (to_pandas t) = Inl e)"
    by (auto simp: count_joined_def split: sum.splits)
  show "(\<exists>counted_df. count_joined t = Inr counted_df) \<longleftrightarrow>
        ''genotype'' \<in> set (columns t) \<and> ''TDP43_kd'' \<in> set (columns t)
        \<and> ''rescueExpression'' \<in> set (columns t)"
    unfolding count_joined_groupby_agg using groupby_agg_columns [of "to_pandas t"] by simp
qed

theorem count_joined_raises_only_on_failure_witness:
  "groupby_agg (to_pandas ex_joined) = Inr ex_summary
   \<and> count_joined ex_joined = Inr ex_summary
   \<and> groupby_agg (to_pandas ex_events) = Inl (KeyError ''genotype'')
   \<and> (\<exists>e. count_joined ex_events = Inl e)"
proof -
  have g: "groupby_agg (to_pandas ex_joined) = Inr ex_summary"
    by code_simp
  have b: "groupby_agg (to_pandas ex_events) = Inl (KeyError ''genotype'')"
    by code_simp
  from count_joined_raises_only_on_failure [of ex_joined] g
  have 1: "count_joined ex_joined = Inr ex_summary" by blast
  from count_joined_raises_only_on_failure [of ex_events] b
  have 2: "\<exists>e. count_joined ex_events = Inl e" by blast
  from g 1 b 2 show ?thesis by simp
qed

section \<open>The file system\<close>

subsection \<open>Lookup\<close>

lemma lookup_update_other: "q \<noteq> p \<Longrightarrow> lookup (AList.update p n fs) q = lookup fs q"
  by (simp add: lookup_def update_conv')

lemma lookup_update_same: "p \<noteq> [] \<Longrightarrow> lookup (AList.update p n fs) p = Some n"
  by (simp add: lookup_def update_conv')

lemma lookup_delete_other: "q \<noteq> p \<Longrightarrow> lookup (AList.delete p fs) q = lookup fs q"
  by (simp add: lookup_def)

lemma lookup_delete_same: "p \<noteq> [] \<Longrightarrow> lookup (AList.delete p fs) p = None"
  by (simp add: lookup_def delete_conv')

lemma lookup_child: "lookup fs (d @ [n]) = map_of fs (d @ [n])"
  by (simp add: lookup_def)

subsection \<open>Directory entries\<close>

lemma set_entries: "set (entries fs d) = {n. lookup fs (d @ [n]) \<noteq> None}"
proof -
  have "n \<in> set (entries fs d) \<longleftrightarrow> d @ [n] \<in> fst ` set fs" for n
  proof
    assume "n \<in> set (entries fs d)"
    then obtain p where p: "p \<in> fst ` set fs" "p \<noteq> []" "butlast p = d" "last p = n"
      by (auto simp: entries_def)
    then have "p = d @ [n]" using append_butlast_last_id [of p] by simp
    with p show "d @ [n] \<in> fst ` set fs" by simp
  next
    assume "d @ [n] \<in> fst ` set fs"
    then have "d @ [n] \<in> set (filter (\<lambda>p. p \<noteq> [] \<and> butlast p = d) (remdups (map fst fs)))"
      by simp
    then have "last (d @ [n]) \<in> set (entries fs d)"
      unfolding entries_def set_map by (rule imageI)
    then show "n \<in> set (entries fs d)" by simp
  qed
  then show ?thesis
    by (auto simp: lookup_child map_of_eq_None_iff)
qed

lemma distinct_entries: "distinct (entries fs d)"
proof -
  have "inj_on last {p. p \<noteq> [] \<and> butlast p = d}"
  proof (rule inj_onI)
    fix p q :: path
    assume a: "p \<in> {p. p \<noteq> [] \<and> butlast p = d}" "q \<in> {p. p \<noteq> [] \<and> butlast p = d}"
      and l: "last p = last q"
    from a have pn: "p \<noteq> []" and qn: "q \<noteq> []" and b: "butlast p = butlast q"
      by auto
    have "p = butlast p @ [last p]"
      using pn by (rule append_butlast_last_id [symmetric])
    also have "\<dots> = butlast q @ [last q]"
      using b l by (simp only:)
    also have "\<dots> = q"
      using qn by (rule append_butlast_last_id)
    finally show "p = q" .
  qed
  then have "inj_on last (set (filter (\<lambda>p. p \<noteq> [] \<and> butlast p = d) (remdups (map fst fs))))"
    by (rule inj_on_subset) auto
  then show ?thesis
    by (simp add: entries_def distinct_map)
qed

lemma entries_Nil_iff: "entries fs d = [] \<longleftrightarrow> (\<forall>n. lookup fs (d @ [n]) = None)"
  using set_entries [of fs d] by (auto simp flip: set_empty)



subsection \<open>Frame: what an operation leaves alone\<close>



lemma write_file_frame:
  "write_file p n fs = (r, fs') \<Longrightarrow> q \<noteq> p \<Longrightarrow> lookup fs' q = lookup fs q"
  unfolding write_file_def
  by (auto split: if_splits simp: lookup_update_other)



lemma os_remove_frame:
  "os_remove p fs = (r, fs') \<Longrightarrow> q \<noteq> p \<Longrightarrow> lookup fs' q = lookup fs q"
  unfolding os_remove_def
  by (auto split: option.splits node.splits simp: lookup_delete_other)

lemma remove_files_frame:
  "remove_files ps fs = (r, fs') \<Longrightarrow> q \<notin> set ps \<Longrightarrow> lookup fs' q = lookup fs q"
proof (induction ps arbitrary: fs)
  case Nil
  then show ?case by simp
next
  case (Cons p ps)
  obtain r1 fs1 where e: "os_remove p fs = (r1, fs1)"
    by (cases "os_remove p fs")
  then have 1: "lookup fs1 q = lookup fs q"
    using Cons.prems(2) by (intro os_remove_frame [OF e]) simp
  show ?case
  proof (cases r1)
    case (Inl a)
    then show ?thesis using Cons.prems e 1 by simp
  next
    case (Inr b)
    then have "remove_files ps fs1 = (r, fs')" using Cons.prems e by simp
    then have "lookup fs' q = lookup fs1 q" using Cons.prems(2) by (intro Cons.IH) simp_all
    then show ?thesis using 1 by simp
  qed
qed

lemma os_rmdir_frame:
  "os_rmdir p fs = (r, fs') \<Longrightarrow> q \<noteq> p \<Longrightarrow> lookup fs' q = lookup fs q"
  unfolding os_rmdir_def
  by (auto split: option.splits node.splits if_splits simp: lookup_delete_other)

lemma filter_joined_frame:
  "filter_joined t fs = (r, fs') \<Longrightarrow> q \<noteq> [''unfiltered_cryptic_data.csv'']
     \<Longrightarrow> lookup fs' q = lookup fs q"
  unfolding filter_joined_def pv_write_csv_def Let_def
  by (auto split: sum.splits prod.splits dest: write_file_frame)


lemma extract_all_parquet_from_zip_files:
  assumes "extract_all_parquet_from_zip zp d fs = (Inr files, fs')"
  shows "lookup fs' d = Some Dir
       \<and> files = map (os_path_join d) (filter (\<lambda>f. endswith f ''.parquet'') (entries fs' d))
       \<and> files \<noteq> []"
  using assms unfolding extract_all_parquet_from_zip_def os_listdir_def
  by (auto split: sum.splits prod.splits if_splits option.splits node.splits simp: Let_def)

subsection \<open>What an operation keeps\<close>

lemma ensure_dirs_keeps:
  "ensure_dirs ds fs = (r, fs') \<Longrightarrow> lookup fs q = Some x \<Longrightarrow> lookup fs' q = Some x"
proof (induction ds arbitrary: fs)
  case Nil
  then show ?case by simp
next
  case (Cons d ds)
  show ?case
  proof (cases "lookup fs d")
    case None
    with Cons.prems have e: "ensure_dirs ds (AList.update d Dir fs) = (r, fs')" by simp
    from None Cons.prems(2) have "q \<noteq> d" by auto
    then have "lookup (AList.update d Dir fs) q = Some x"
      using Cons.prems(2) by (simp add: lookup_update_other)
    with e show ?thesis by (rule Cons.IH)
  next
    case (Some y)
    then show ?thesis using Cons by (cases y) auto
  qed
qed

lemma ensure_dirs_made:
  "ensure_dirs ds fs = (Inr u, fs') \<Longrightarrow> d \<in> set ds \<Longrightarrow> lookup fs' d = Some Dir"
proof (induction ds arbitrary: fs)
  case Nil
  then show ?case by simp
next
  case (Cons a ds)
  show ?case
  proof (cases "lookup fs a")
    case None
    with Cons.prems have e: "ensure_dirs ds (AList.update a Dir fs) = (Inr u, fs')" by simp
    show ?thesis
    proof (cases "d \<in> set ds")
      case True
      with e show ?thesis by (rule Cons.IH)
    next
      case False
      with Cons.prems have da: "d = a" by simp
      from None have "a \<noteq> []" by (auto simp: lookup_def)
      then have "lookup (AList.update a Dir fs) a = Some Dir" by (rule lookup_update_same)
      with e show ?thesis unfolding da by (rule ensure_dirs_keeps)
    qed
  next
    case (Some y)
    show ?thesis
    proof (cases y)
      case Dir
      with Some Cons.prems have e: "ensure_dirs ds fs = (Inr u, fs')" by simp
      show ?thesis
      proof (cases "d \<in> set ds")
        case True
        with e show ?thesis by (rule Cons.IH)
      next
        case False
        with Cons.prems have "d = a" by simp
        with Some Dir e show ?thesis by (auto intro: ensure_dirs_keeps)
      qed
    next
      case (File x)
      with Some Cons.prems show ?thesis by simp
    next
      case (ZipFile ms)
      with Some Cons.prems show ?thesis by simp
    qed
  qed
qed

lemma os_makedirs_keeps:
  "os_makedirs p fs = (r, fs') \<Longrightarrow> lookup fs q = Some x \<Longrightarrow> lookup fs' q = Some x"
  unfolding os_makedirs_def by (auto split: if_splits intro: ensure_dirs_keeps)

lemma write_file_exists:
  "write_file p n fs = (r, fs') \<Longrightarrow> os_path_exists fs q \<Longrightarrow> os_path_exists fs' q"
  unfolding write_file_def os_path_exists_def
  by (cases "q = p") (auto split: if_splits simp: lookup_update_other lookup_def update_conv')

lemma write_file_keeps_dir:
  "write_file p n fs = (r, fs') \<Longrightarrow> lookup fs q = Some Dir \<Longrightarrow> lookup fs' q = Some Dir"
  unfolding write_file_def
  by (cases "q = p") (auto split: if_splits simp: lookup_update_other)

lemma write_file_written:
  "write_file p n fs = (Inr u, fs') \<Longrightarrow> os_path_exists fs' p"
  unfolding write_file_def os_path_exists_def
  by (auto split: if_splits simp: lookup_def update_conv')

lemma extract_member_exists:
  assumes "extract_member d m fs = (r, fs')" and "os_path_exists fs q"
  shows "os_path_exists fs' q"
proof -
  obtain r1 fs1 where e: "ensure_dirs (map (\<lambda>k. d @ take k (fst m)) [0..<length (fst m)]) fs = (r1, fs1)"
    by (cases "ensure_dirs (map (\<lambda>k. d @ take k (fst m)) [0..<length (fst m)]) fs")
  from assms(2) obtain x where "lookup fs q = Some x" by (auto simp: os_path_exists_def)
  with e have "lookup fs1 q = Some x" by (rule ensure_dirs_keeps)
  then have 1: "os_path_exists fs1 q" by (simp add: os_path_exists_def)
  show ?thesis
    using assms(1) e 1
    by (cases r1) (auto simp: extract_member_def dest: write_file_exists)
qed

lemma extract_member_keeps_dir:
  assumes "extract_member d m fs = (r, fs')" and "lookup fs q = Some Dir"
  shows "lookup fs' q = Some Dir"
proof -
  obtain r1 fs1 where e: "ensure_dirs (map (\<lambda>k. d @ take k (fst m)) [0..<length (fst m)]) fs = (r1, fs1)"
    by (cases "ensure_dirs (map (\<lambda>k. d @ take k (fst m)) [0..<length (fst m)]) fs")
  from e assms(2) have 1: "lookup fs1 q = Some Dir" by (rule ensure_dirs_keeps)
  show ?thesis
    using assms(1) e 1
    by (cases r1) (auto simp: extract_member_def dest: write_file_keeps_dir)
qed

lemma extract_member_written:
  assumes "extract_member d m fs = (Inr u, fs')"
  shows "os_path_exists fs' (d @ fst m)"
  using assms unfolding extract_member_def
  by (auto split: prod.splits sum.splits dest: write_file_written)

lemma extract_member_parent:
  assumes "extract_member d m fs = (Inr u, fs')" and "k < length (fst m)"
  shows "lookup fs' (d @ take k (fst m)) = Some Dir"
proof -
  obtain fs1 where e: "ensure_dirs (map (\<lambda>k. d @ take k (fst m)) [0..<length (fst m)]) fs = (Inr (), fs1)"
    and w: "write_file (d @ fst m) (File (snd m)) fs1 = (Inr u, fs')"
    using assms(1) unfolding extract_member_def
    by (auto split: prod.splits sum.splits)
  have "d @ take k (fst m) \<in> set (map (\<lambda>k. d @ take k (fst m)) [0..<length (fst m)])"
    using assms(2) by auto
  with e have "lookup fs1 (d @ take k (fst m)) = Some Dir" by (rule ensure_dirs_made)
  with w show ?thesis by (rule write_file_keeps_dir)
qed

lemma extractall_exists:
  "extractall d ms fs = (r, fs') \<Longrightarrow> os_path_exists fs q \<Longrightarrow> os_path_exists fs' q"
proof (induction ms arbitrary: fs)
  case Nil
  then show ?case by simp
next
  case (Cons m ms)
  obtain r1 fs1 where e: "extract_member d m fs = (r1, fs1)"
    by (cases "extract_member d m fs")
  then have 1: "os_path_exists fs1 q"
    using Cons.prems(2) by (rule extract_member_exists)
  show ?case
  proof (cases r1)
    case (Inl a)
    then show ?thesis using Cons.prems e 1 by simp
  next
    case (Inr b)
    then have "extractall d ms fs1 = (r, fs')" using Cons.prems e by simp
    then show ?thesis using 1 by (rule Cons.IH)
  qed
qed

lemma extractall_keeps_dir:
  "extractall d ms fs = (r, fs') \<Longrightarrow> lookup fs q = Some Dir \<Longrightarrow> lookup fs' q = Some Dir"
proof (induction ms arbitrary: fs)
  case Nil
  then show ?case by simp
next
  case (Cons m ms)
  obtain r1 fs1 where e: "extract_member d m fs = (r1, fs1)"
    by (cases "extract_member d m fs")
  then have 1: "lookup fs1 q = Some Dir"
    using Cons.prems(2) by (rule extract_member_keeps_dir)
  show ?case
  proof (cases r1)
    case (Inl a)
    then show ?thesis using Cons.prems e 1 by simp
  next
    case (Inr b)
    then have "extractall d ms fs1 = (r, fs')" using Cons.prems e by simp
    then show ?thesis using 1 by (rule Cons.IH)
  qed
qed

lemma extractall_written:
  "extractall d ms fs = (Inr u, fs') \<Longrightarrow> m \<in> set ms \<Longrightarrow> os_path_exists fs' (d @ fst m)"
proof (induction ms arbitrary: fs)
  case Nil
  then show ?case by simp
next
  case (Cons a ms)
  obtain fs1 where e: "extract_member d a fs = (Inr (), fs1)"
    and r: "extractall d ms fs1 = (Inr u, fs')"
    using Cons.prems(1) by (auto split: prod.splits sum.splits)
  show ?case
  proof (cases "m \<in> set ms")
    case True
    with r show ?thesis by (rule Cons.IH)
  next
    case False
    with Cons.prems have "m = a" by simp
    with e have "os_path_exists fs1 (d @ fst m)" by (simp add: extract_member_written)
    with r show ?thesis by (rule extractall_exists)
  qed
qed

lemma extractall_parent:
  "extractall d ms fs = (Inr u, fs') \<Longrightarrow> m \<in> set ms \<Longrightarrow> k < length (fst m)
     \<Longrightarrow> lookup fs' (d @ take k (fst m)) = Some Dir"
proof (induction ms arbitrary: fs)
  case Nil
  then show ?case by simp
next
  case (Cons a ms)
  obtain fs1 where e: "extract_member d a fs = (Inr (), fs1)"
    and r: "extractall d ms fs1 = (Inr u, fs')"
    using Cons.prems(1) by (auto split: prod.splits sum.splits)
  show ?case
  proof (cases "m \<in> set ms")
    case True
    with r show ?thesis using Cons.prems(3) by (intro Cons.IH)
  next
    case False
    with Cons.prems have "m = a" by simp
    with e Cons.prems(3) have "lookup fs1 (d @ take k (fst m)) = Some Dir"
      by (simp add: extract_member_parent)
    with r show ?thesis by (rule extractall_keeps_dir)
  qed
qed

text \<open>The stages of \<^verbatim>\<open>extract_all_parquet_from_zip\<close> when it returns a list.\<close>

lemma extract_all_parquet_from_zip_stages:
  assumes "extract_all_parquet_from_zip zp d fs = (Inr files, fs2)"
  obtains fs1 z where
    "(if \<not> os_path_exists fs d then os_makedirs d fs else (Inr (), fs)) = (Inr (), fs1)"
    and "open_zip fs1 zp = Inr z"
    and "extractall d z fs1 = (Inr (), fs2)"
  using assms unfolding extract_all_parquet_from_zip_def
  by (auto split: sum.splits prod.splits if_splits simp: Let_def)

lemma extract_stage1_keeps:
  assumes "(if \<not> os_path_exists fs d then os_makedirs d fs else (Inr (), fs)) = (r, fs1)"
    and "lookup fs q = Some x"
  shows "lookup fs1 q = Some x"
  using assms by (auto split: if_splits dest: os_makedirs_keeps)

section \<open>The extractor\<close>

text \<open>
  C9: when the directory is there, the archive opens and all of its members are
  extracted, and the extraction directory then holds no entry whose name ends in
  \<^verbatim>\<open>.parquet\<close>, the call \<^verbatim>\<open>extract_all_parquet_from_zip\<close> raises: the "no parquet
  files" exception when the extraction directory is a directory, the error of
  \<^verbatim>\<open>os.listdir\<close> otherwise. It does not return an empty list.
\<close>

theorem extract_without_shards_raises:
  assumes "(if \<not> os_path_exists fs extract_dir then os_makedirs extract_dir fs
            else (Inr (), fs)) = (Inr (), fs1)"
    and "open_zip fs1 zip_file = Inr z"
    and "extractall extract_dir z fs1 = (Inr (), fs2)"
    and "\<forall>n. os_path_exists fs2 (os_path_join extract_dir n) \<longrightarrow> \<not> endswith n ''.parquet''"
  shows "extract_all_parquet_from_zip zip_file extract_dir fs =
           (Inl (NoParquetFiles extract_dir), fs2)
       \<or> extract_all_parquet_from_zip zip_file extract_dir fs =
           (Inl (NotADirectoryError extract_dir), fs2)"
proof -
  have none: "filter (\<lambda>f. endswith f ''.parquet'') (entries fs2 extract_dir) = []"
    using assms(4) set_entries [of fs2 extract_dir]
    by (auto simp: filter_empty_conv os_path_exists_def os_path_join_def)
  have "os_path_exists fs1 extract_dir"
  proof (cases "os_path_exists fs extract_dir")
    case True
    with assms(1) show ?thesis by simp
  next
    case False
    then have ne: "extract_dir \<noteq> []" by (auto simp: os_path_exists_def lookup_def)
    from False assms(1) have
      "ensure_dirs (map (\<lambda>k. take k extract_dir) [1..<Suc (length extract_dir)]) fs = (Inr (), fs1)"
      by (simp add: os_makedirs_def)
    moreover have "extract_dir \<in> set (map (\<lambda>k. take k extract_dir) [1..<Suc (length extract_dir)])"
      using ne by (auto simp: image_iff Suc_le_eq intro!: bexI [where x = "length extract_dir"])
    ultimately have "lookup fs1 extract_dir = Some Dir" by (rule ensure_dirs_made)
    then show ?thesis by (simp add: os_path_exists_def)
  qed
  with assms(3) have "os_path_exists fs2 extract_dir" by (rule extractall_exists)
  then obtain x where x: "lookup fs2 extract_dir = Some x"
    by (auto simp: os_path_exists_def)
  show ?thesis
    using assms(1-3) x none unfolding extract_all_parquet_from_zip_def os_listdir_def
    by (cases x) (simp_all add: Let_def)
qed

theorem extract_without_shards_raises_witness:
  "extract_all_parquet_from_zip zip_path default_extract_dir no_shard_fs =
     (Inl (NoParquetFiles default_extract_dir),
      no_shard_fs @ [([''extracted_parquet''], Dir),
                     ([''extracted_parquet'', ''readme.txt''], File (Other ''notes''))])"
proof -
  let ?fs1 = "no_shard_fs @ [([''extracted_parquet''], Dir)]"
  let ?fs2 = "no_shard_fs @ [([''extracted_parquet''], Dir),
                     ([''extracted_parquet'', ''readme.txt''], File (Other ''notes''))]"
  have h1: "(if \<not> os_path_exists no_shard_fs default_extract_dir
             then os_makedirs default_extract_dir no_shard_fs
             else (Inr (), no_shard_fs)) = (Inr (), ?fs1)"
    by code_simp
  have h2: "open_zip ?fs1 zip_path = Inr [([''readme.txt''], Other ''notes'')]"
    by code_simp
  have h3: "extractall default_extract_dir [([''readme.txt''], Other ''notes'')] ?fs1 = (Inr (), ?fs2)"
    by code_simp
  have "set (entries ?fs2 default_extract_dir) = {''readme.txt''}"
    by code_simp
  then have e: "{n. lookup ?fs2 (default_extract_dir @ [n]) \<noteq> None} = {''readme.txt''}"
    by (simp only: set_entries)
  have h4: "\<forall>n. os_path_exists ?fs2 (os_path_join default_extract_dir n) \<longrightarrow> \<not> endswith n ''.parquet''"
  proof (intro allI impI)
    fix n assume "os_path_exists ?fs2 (os_path_join default_extract_dir n)"
    then have "n \<in> {n. lookup ?fs2 (default_extract_dir @ [n]) \<noteq> None}"
      by (simp add: os_path_exists_def os_path_join_def)
    then have "n = ''readme.txt''" unfolding e by simp
    then show "\<not> endswith n ''.parquet''" by (simp add: endswith_def)
  qed
  have "lookup ?fs2 default_extract_dir = Some Dir" by code_simp
  then have nd: "extract_all_parquet_from_zip zip_path default_extract_dir no_shard_fs \<noteq>
           (Inl (NotADirectoryError default_extract_dir), ?fs2)"
    using h1 h2 h3 unfolding extract_all_parquet_from_zip_def os_listdir_def
    by (simp add: Let_def)
  from extract_without_shards_raises [OF h1 h2 h3 h4] nd show ?thesis by blast
qed

text \<open>
  C10: when \<^verbatim>\<open>extract_all_parquet_from_zip\<close> returns a list, the list holds, once each,
  the paths of exactly the entries of the extraction directory, as it is after the
  extraction, whose names end in \<^verbatim>\<open>.parquet\<close>. An entry of that kind that was in the
  directory before the call is in the list, whether or not the archive has it; every
  member of the archive is in the directory after the call, and a member at the top of
  the archive whose name does not end in \<^verbatim>\<open>.parquet\<close> is not in the list.
\<close>

theorem extract_returns_parquet_entries:
  assumes "extract_all_parquet_from_zip zip_file extract_dir fs = (Inr files, fs')"
  shows "set files = {os_path_join extract_dir n | n.
             os_path_exists fs' (os_path_join extract_dir n) \<and> endswith n ''.parquet''}
       \<and> distinct files
       \<and> (\<forall>n. os_path_exists fs (os_path_join extract_dir n) \<and> endswith n ''.parquet''
              \<longrightarrow> os_path_join extract_dir n \<in> set files)
       \<and> (\<forall>ms. lookup fs zip_file = Some (ZipFile ms) \<longrightarrow>
            (\<forall>m\<in>set ms. os_path_exists fs' (extract_dir @ fst m)
               \<and> (\<forall>n. fst m = [n] \<and> \<not> endswith n ''.parquet''
                      \<longrightarrow> os_path_join extract_dir n \<notin> set files)))"
proof -
  from assms obtain fs1 z where
    s1: "(if \<not> os_path_exists fs extract_dir then os_makedirs extract_dir fs
          else (Inr (), fs)) = (Inr (), fs1)"
    and s2: "open_zip fs1 zip_file = Inr z"
    and s3: "extractall extract_dir z fs1 = (Inr (), fs')"
    by (rule extract_all_parquet_from_zip_stages)
  from assms have files:
    "files = map (os_path_join extract_dir)
               (filter (\<lambda>f. endswith f ''.parquet'') (entries fs' extract_dir))"
    by (simp add: extract_all_parquet_from_zip_files)
  have A: "set files = {os_path_join extract_dir n | n.
             os_path_exists fs' (os_path_join extract_dir n) \<and> endswith n ''.parquet''}"
    unfolding files using set_entries [of fs' extract_dir]
    by (auto simp: os_path_exists_def os_path_join_def)
  have "inj (os_path_join extract_dir)"
    by (simp add: inj_def os_path_join_def)
  then have B: "distinct files"
    unfolding files by (simp add: distinct_map distinct_entries inj_on_def inj_def)
  have keep: "os_path_exists fs' q" if "os_path_exists fs q" for q
  proof -
    from that obtain x where "lookup fs q = Some x" by (auto simp: os_path_exists_def)
    with s1 have "lookup fs1 q = Some x" by (rule extract_stage1_keeps)
    then have "os_path_exists fs1 q" by (simp add: os_path_exists_def)
    with s3 show ?thesis by (rule extractall_exists)
  qed
  have C: "\<forall>n. os_path_exists fs (os_path_join extract_dir n) \<and> endswith n ''.parquet''
              \<longrightarrow> os_path_join extract_dir n \<in> set files"
    unfolding A using keep by blast
  have D: "\<forall>ms. lookup fs zip_file = Some (ZipFile ms) \<longrightarrow>
            (\<forall>m\<in>set ms. os_path_exists fs' (extract_dir @ fst m)
               \<and> (\<forall>n. fst m = [n] \<and> \<not> endswith n ''.parquet''
                      \<longrightarrow> os_path_join extract_dir n \<notin> set files))"
  proof (intro allI impI ballI conjI)
    fix ms m
    assume zf: "lookup fs zip_file = Some (ZipFile ms)" and m: "m \<in> set ms"
    from s1 zf have "lookup fs1 zip_file = Some (ZipFile ms)" by (rule extract_stage1_keeps)
    with s2 have "z = ms" by (simp add: open_zip_def)
    with s3 m show "os_path_exists fs' (extract_dir @ fst m)"
      by (simp add: extractall_written)
  next
    fix ms :: "(path \<times> data) list" and m :: "path \<times> data" and n
    assume "fst m = [n] \<and> \<not> endswith n ''.parquet''"
    then show "os_path_join extract_dir n \<notin> set files"
      unfolding A by (auto simp: os_path_join_def)
  qed
  from A B C D show ?thesis by blast
qed

theorem extract_returns_parquet_entries_witness:
  "extract_all_parquet_from_zip zip_path default_extract_dir leftover_fs =
     (Inr [[''extracted_parquet'', ''old.parquet''], [''extracted_parquet'', ''shard0.parquet'']],
      leftover_fs @ [([''extracted_parquet'', ''shard0.parquet''], File (Parquet shard_a)),
                     ([''extracted_parquet'', ''readme.txt''], File (Other ''notes''))])
   \<and> os_path_exists leftover_fs [''extracted_parquet'', ''old.parquet'']
   \<and> os_path_exists
        (leftover_fs @ [([''extracted_parquet'', ''shard0.parquet''], File (Parquet shard_a)),
                        ([''extracted_parquet'', ''readme.txt''], File (Other ''notes''))])
        [''extracted_parquet'', ''readme.txt'']
   \<and> distinct [[''extracted_parquet'', ''old.parquet''], [''extracted_parquet'', ''shard0.parquet'']]"
proof -
  let ?files = "[[''extracted_parquet'', ''old.parquet''], [''extracted_parquet'', ''shard0.parquet'']]"
  let ?fs' = "leftover_fs @ [([''extracted_parquet'', ''shard0.parquet''], File (Parquet shard_a)),
                     ([''extracted_parquet'', ''readme.txt''], File (Other ''notes''))]"
  have h: "extract_all_parquet_from_zip zip_path default_extract_dir leftover_fs = (Inr ?files, ?fs')"
    by code_simp
  have o: "os_path_exists leftover_fs [''extracted_parquet'', ''old.parquet'']"
    by code_simp
  have z: "lookup leftover_fs zip_path =
      Some (ZipFile [([''shard0.parquet''], Parquet shard_a), ([''readme.txt''], Other ''notes'')])"
    by code_simp
  note t = extract_returns_parquet_entries [OF h]
  from t have d: "distinct ?files" by blast
  from t z have "\<forall>m\<in>set [([''shard0.parquet''], Parquet shard_a), ([''readme.txt''], Other ''notes'')].
      os_path_exists ?fs' (default_extract_dir @ fst m)"
    by blast
  then have r: "os_path_exists ?fs' [''extracted_parquet'', ''readme.txt'']"
    by (simp add: default_extract_dir_def)
  from h o r d show ?thesis by blast
qed

section \<open>The orchestrator\<close>

subsection \<open>Directories outlive writes and removals of files\<close>

lemma filter_joined_keeps_dir:
  "filter_joined t fs = (r, fs') \<Longrightarrow> lookup fs q = Some Dir \<Longrightarrow> lookup fs' q = Some Dir"
  unfolding filter_joined_def pv_write_csv_def Let_def
  by (auto split: sum.splits prod.splits dest: write_file_keeps_dir)

lemma os_remove_keeps_dir:
  "os_remove p fs = (r, fs') \<Longrightarrow> lookup fs q = Some Dir \<Longrightarrow> lookup fs' q = Some Dir"
  unfolding os_remove_def
  by (cases "q = p") (auto split: option.splits node.splits simp: lookup_delete_other)

lemma remove_files_keeps_dir:
  "remove_files ps fs = (r, fs') \<Longrightarrow> lookup fs q = Some Dir \<Longrightarrow> lookup fs' q = Some Dir"
proof (induction ps arbitrary: fs)
  case Nil
  then show ?case by simp
next
  case (Cons p ps)
  obtain r1 fs1 where e: "os_remove p fs = (r1, fs1)"
    by (cases "os_remove p fs")
  then have 1: "lookup fs1 q = Some Dir"
    using Cons.prems(2) by (rule os_remove_keeps_dir)
  show ?case
  proof (cases r1)
    case (Inl a)
    then show ?thesis using Cons.prems e 1 by simp
  next
    case (Inr b)
    then have "remove_files ps fs1 = (r, fs')" using Cons.prems e by simp
    then show ?thesis using 1 by (rule Cons.IH)
  qed
qed

lemma os_rmdir_removed:
  assumes "os_rmdir d fs = (Inr u, fs')"
  shows "lookup fs' d = None" and "lookup fs' (d @ [n]) = None"
    and "\<forall>k. lookup fs (d @ [k]) = None"
proof -
  from assms have ne: "d \<noteq> []" and em: "entries fs d = []" and fs': "fs' = AList.delete d fs"
    unfolding os_rmdir_def
    by (auto split: option.splits node.splits if_splits)
  show "lookup fs' d = None"
    unfolding fs' using ne by (rule lookup_delete_same)
  from em show all: "\<forall>k. lookup fs (d @ [k]) = None"
    by (simp add: entries_Nil_iff)
  then show "lookup fs' (d @ [n]) = None"
    unfolding fs' by (simp add: lookup_delete_other)
qed

text \<open>The stages of \<^verbatim>\<open>process_data\<close> when it returns.\<close>

lemma process_data_stages:
  assumes "process_data zp se md d fs = (Inr result, fs4)"
  obtains files fs1 joined_df fs2 fs3 where
    "extract_all_parquet_from_zip zp d fs = (Inr files, fs1)"
    and "filter_joined joined_df fs1 = (Inr (fst result), fs2)"
    and "count_joined joined_df = Inr (snd result)"
    and "remove_files files fs2 = (Inr (), fs3)"
    and "os_rmdir d fs3 = (Inr (), fs4)"
  using assms unfolding process_data_def
  by (auto split: sum.splits prod.splits)

text \<open>
  C7: when \<^verbatim>\<open>process_data\<close> returns normally, the extraction directory does not exist
  in the file system it leaves, nor does anything directly inside it. The run did
  extract: \<^verbatim>\<open>extract_all_parquet_from_zip\<close> left the directory and a non-empty list of
  shard files in it, and none of them exists after the run; apart from them, the
  directory and the knockdown-only table, every path holds after the run what it held
  after the extraction. Nor does the path exist to which any member of the archive was
  extracted.
\<close>

theorem process_data_cleans_up:
  assumes "process_data zip_file splice_events sample_metadata extract_dir fs = (Inr result, fs')"
  shows "\<not> os_path_exists fs' extract_dir
       \<and> (\<forall>n. \<not> os_path_exists fs' (os_path_join extract_dir n))
       \<and> (\<exists>files fs1. extract_all_parquet_from_zip zip_file extract_dir fs = (Inr files, fs1)
             \<and> files \<noteq> []
             \<and> lookup fs1 extract_dir = Some Dir
             \<and> (\<forall>f\<in>set files. os_path_exists fs1 f \<and> \<not> os_path_exists fs' f)
             \<and> (\<forall>q. q \<notin> set files \<and> q \<noteq> extract_dir
                     \<and> q \<noteq> [''unfiltered_cryptic_data.csv'']
                   \<longrightarrow> lookup fs' q = lookup fs1 q))
       \<and> (\<forall>ms. lookup fs zip_file = Some (ZipFile ms) \<longrightarrow>
             (\<forall>m\<in>set ms. \<not> os_path_exists fs' (extract_dir @ fst m)))"
proof -
  from assms obtain files fs1 joined_df fs2 fs3 where
    ex: "extract_all_parquet_from_zip zip_file extract_dir fs = (Inr files, fs1)"
    and fj: "filter_joined joined_df fs1 = (Inr (fst result), fs2)"
    and rm: "remove_files files fs2 = (Inr (), fs3)"
    and rd: "os_rmdir extract_dir fs3 = (Inr (), fs')"
    by (rule process_data_stages)
  note gone = os_rmdir_removed [OF rd]
  have A: "\<not> os_path_exists fs' extract_dir"
    using gone(1) by (simp add: os_path_exists_def)
  have child: "\<not> os_path_exists fs' (extract_dir @ [n])" for n
    using gone(2) [of n] by (simp add: os_path_exists_def)
  then have A': "\<forall>n. \<not> os_path_exists fs' (os_path_join extract_dir n)"
    by (simp add: os_path_join_def)
  note fl = extract_all_parquet_from_zip_files [OF ex]
  from fl have files: "files = map (os_path_join extract_dir)
                 (filter (\<lambda>f. endswith f ''.parquet'') (entries fs1 extract_dir))"
    by simp
  have "\<forall>f\<in>set files. os_path_exists fs1 f \<and> \<not> os_path_exists fs' f"
    unfolding files using child set_entries [of fs1 extract_dir]
    by (auto simp: os_path_join_def os_path_exists_def)
  moreover have "\<forall>q. q \<notin> set files \<and> q \<noteq> extract_dir
                     \<and> q \<noteq> [''unfiltered_cryptic_data.csv'']
                   \<longrightarrow> lookup fs' q = lookup fs1 q"
  proof (intro allI impI)
    fix q
    assume q: "q \<notin> set files \<and> q \<noteq> extract_dir \<and> q \<noteq> [''unfiltered_cryptic_data.csv'']"
    then have q1: "q \<notin> set files" and q2: "q \<noteq> extract_dir"
      and q3: "q \<noteq> [''unfiltered_cryptic_data.csv'']"
      by simp_all
    from rd q2 have "lookup fs' q = lookup fs3 q" by (rule os_rmdir_frame)
    also from rm q1 have "\<dots> = lookup fs2 q" by (rule remove_files_frame)
    also from fj q3 have "\<dots> = lookup fs1 q" by (rule filter_joined_frame)
    finally show "lookup fs' q = lookup fs1 q" .
  qed
  ultimately have B: "\<exists>files fs1. extract_all_parquet_from_zip zip_file extract_dir fs = (Inr files, fs1)
             \<and> files \<noteq> []
             \<and> lookup fs1 extract_dir = Some Dir
             \<and> (\<forall>f\<in>set files. os_path_exists fs1 f \<and> \<not> os_path_exists fs' f)
             \<and> (\<forall>q. q \<notin> set files \<and> q \<noteq> extract_dir
                     \<and> q \<noteq> [''unfiltered_cryptic_data.csv'']
                   \<longrightarrow> lookup fs' q = lookup fs1 q)"
    using ex fl by blast
  have C: "\<forall>ms. lookup fs zip_file = Some (ZipFile ms) \<longrightarrow>
             (\<forall>m\<in>set ms. \<not> os_path_exists fs' (extract_dir @ fst m))"
  proof (intro allI impI ballI)
    fix ms m
    assume zf: "lookup fs zip_file = Some (ZipFile ms)" and m: "m \<in> set ms"
    from ex obtain fs0 z where
      s1: "(if \<not> os_path_exists fs extract_dir then os_makedirs extract_dir fs
            else (Inr (), fs)) = (Inr (), fs0)"
      and s2: "open_zip fs0 zip_file = Inr z"
      and s3: "extractall extract_dir z fs0 = (Inr (), fs1)"
      by (rule extract_all_parquet_from_zip_stages)
    from s1 zf have "lookup fs0 zip_file = Some (ZipFile ms)" by (rule extract_stage1_keeps)
    with s2 have z: "z = ms" by (simp add: open_zip_def)
    show "\<not> os_path_exists fs' (extract_dir @ fst m)"
    proof (cases "fst m")
      case Nil
      with A show ?thesis by simp
    next
      case (Cons a rest)
      show ?thesis
      proof (cases rest)
        case Nil
        with Cons child [of a] show ?thesis by simp
      next
        case (Cons b rest')
        with \<open>fst m = a # rest\<close> have len: "1 < length (fst m)" and tk: "take 1 (fst m) = [a]"
          by simp_all
        from s3 m len have "lookup fs1 (extract_dir @ take 1 (fst m)) = Some Dir"
          unfolding z by (rule extractall_parent)
        then have "lookup fs1 (extract_dir @ [a]) = Some Dir" by (simp only: tk)
        with fj have "lookup fs2 (extract_dir @ [a]) = Some Dir" by (rule filter_joined_keeps_dir)
        with rm have "lookup fs3 (extract_dir @ [a]) = Some Dir" by (rule remove_files_keeps_dir)
        with gone(3) show ?thesis by simp
      qed
    qed
  qed
  from A A' B C show ?thesis by blast
qed

text \<open>
  The witness starts where the directory of an earlier run is still there with a shard
  in it: the run returns normally, and the directory, the old shard and the shard of the
  archive are gone.
\<close>

theorem process_data_cleans_up_witness:
  "os_path_exists rerun_fs [''extracted_parquet'']
   \<and> os_path_exists rerun_fs [''extracted_parquet'', ''old.parquet'']
   \<and> \<not> isl (fst (process_data zip_path splice_events_path sample_metadata_path
                    default_extract_dir rerun_fs))
   \<and> \<not> os_path_exists
         (snd (process_data zip_path splice_events_path sample_metadata_path default_extract_dir
                 rerun_fs))
         [''extracted_parquet'']
   \<and> \<not> os_path_exists
         (snd (process_data zip_path splice_events_path sample_metadata_path default_extract_dir
                 rerun_fs))
         [''extracted_parquet'', ''old.parquet'']
   \<and> \<not> os_path_exists
         (snd (process_data zip_path splice_events_path sample_metadata_path default_extract_dir
                 rerun_fs))
         [''extracted_parquet'', ''shard0.parquet'']"
proof -
  let ?run = "process_data zip_path splice_events_path sample_metadata_path default_extract_dir
                rerun_fs"
  have before: "os_path_exists rerun_fs [''extracted_parquet'']"
    "os_path_exists rerun_fs [''extracted_parquet'', ''old.parquet'']"
    by code_simp+
  have f: "\<not> isl (fst ?run)"
    by code_simp
  then have "fst ?run = Inr (projr (fst ?run))"
    by simp
  then have h: "?run = (Inr (projr (fst ?run)), snd ?run)"
    by (metis prod.collapse)
  have z: "lookup rerun_fs zip_path = Some (ZipFile [([''shard0.parquet''], Parquet ex_parquet)])"
    by code_simp
  note t = process_data_cleans_up [OF h]
  from t have 1: "\<not> os_path_exists (snd ?run) default_extract_dir" by blast
  from t have "\<not> os_path_exists (snd ?run) (os_path_join default_extract_dir ''old.parquet'')"
    by blast
  then have 2: "\<not> os_path_exists (snd ?run) [''extracted_parquet'', ''old.parquet'']"
    by (simp add: default_extract_dir_def os_path_join_def)
  from t z have "\<forall>m\<in>set [([''shard0.parquet''], Parquet ex_parquet)].
      \<not> os_path_exists (snd ?run) (default_extract_dir @ fst m)"
    by blast
  then have 3: "\<not> os_path_exists (snd ?run) [''extracted_parquet'', ''shard0.parquet'']"
    by (simp add: default_extract_dir_def)
  from before f 1 2 3 show ?thesis by (simp add: default_extract_dir_def)
qed

subsection \<open>What \<^verbatim>\<open>process_data\<close> leaves alone\<close>








section \<open>The joiner\<close>

text \<open>
  C1 fails on the code: the second join of \<^verbatim>\<open>join_datasets\<close> passes no
  \<^verbatim>\<open>join_type\<close> and is a left outer join. A measured junction of sample \<^verbatim>\<open>s1\<close> that
  matches a cryptic event stays in the joined table although the metadata describe
  sample \<^verbatim>\<open>s2\<close> only; its \<^verbatim>\<open>genotype\<close>, \<^verbatim>\<open>TDP43_kd\<close> and \<^verbatim>\<open>rescueExpression\<close> are
  null.
\<close>

theorem join_datasets_keeps_unmatched_sample:
  "join_datasets other_sample_fs shard_a ex_cryptic_events sample_metadata_path =
     Inr \<lparr>columns = [''junction_coords'', ''sample_name'', ''junc_cat'', ''genotype'',
                     ''TDP43_kd'', ''rescueExpression''],
          rows = [[(''junction_coords'', Some ''cA''), (''sample_name'', Some ''s1''),
                   (''junc_cat'', Some ''novel_acceptor''), (''genotype'', None),
                   (''TDP43_kd'', None), (''rescueExpression'', None)]]\<rparr>"
  by code_simp

end
